theory Spec2Isabelle
  imports
    Main
    "HOL-Library.Word"
    "HOL-Library.List_Lexorder"
    "HOL-Library.Sublist"
    "HOL-Library.Multiset"
begin

section \<open>JavaScript values\<close>

text \<open>
  A JavaScript string is a sequence of UTF-16 code units; string equality and the relational
  operators compare code units position by position, a proper prefix being smaller. The
  order on lists of \<^theory_text>\<open>HOL-Library.List_Lexorder\<close> over the unsigned order of
  16-bit words is exactly that comparison. A \<open>Buffer\<close> is a sequence of bytes.
\<close>

type_synonym jschar = "16 word"
type_synonym jsstring = "jschar list"
type_synonym buffer = "8 word list"

definition js :: "string \<Rightarrow> jsstring" where
  \<comment> \<open>a string literal of the source, as code units\<close>
  "js s = map of_char s"

text \<open>
  A property that holds a string, \<open>null\<close> or \<open>undefined\<close>. \<open>truthy\<close> is the
  test of \<open>if (v)\<close>, \<open>!v\<close> and \<open>v || w\<close>; \<open>toStr\<close> is the conversion of
  \<open>v + s\<close>; \<open>joinStr\<close> is the conversion of \<open>Array.prototype.join\<close>, which
  renders \<open>null\<close> and \<open>undefined\<close> as the empty string.
\<close>

datatype jsval = Undefined | Null | Str jsstring

fun truthy :: "jsval \<Rightarrow> bool" where
  "truthy (Str s) = (s \<noteq> [])"
| "truthy _ = False"

fun toStr :: "jsval \<Rightarrow> jsstring" where
  "toStr Undefined = js ''undefined''"
| "toStr Null = js ''null''"
| "toStr (Str s) = s"

fun joinStr :: "jsval \<Rightarrow> jsstring" where
  "joinStr (Str s) = s"
| "joinStr _ = []"

fun orElse :: "jsval \<Rightarrow> jsval \<Rightarrow> jsval" where
  \<comment> \<open>\<open>v || w\<close>\<close>
  "orElse v w = (if truthy v then v else w)"

fun looseNeq :: "jsval \<Rightarrow> jsstring \<Rightarrow> bool" where
  \<comment> \<open>\<open>v != s\<close> for a string \<open>s\<close>: \<open>null\<close> and \<open>undefined\<close> equal no string\<close>
  "looseNeq (Str a) s = (a \<noteq> s)"
| "looseNeq _ s = True"

definition startsWith :: "jsstring \<Rightarrow> jsstring \<Rightarrow> bool" where
  \<comment> \<open>\<open>s.indexOf(p) === 0\<close> and \<open>s.startsWith(p)\<close>\<close>
  "startsWith s p = (take (length p) s = p)"

text \<open>
  \<open>Array.prototype.sort(comparefn)\<close> is stable, and for a consistent comparator its result
  is the one sorted arrangement that keeps equal elements in their original order. Insertion
  from the right computes that arrangement: an element goes in front of the first later element
  it does not exceed.
\<close>

fun insort_cmp :: "('a \<Rightarrow> 'a \<Rightarrow> int) \<Rightarrow> 'a \<Rightarrow> 'a list \<Rightarrow> 'a list" where
  "insort_cmp cmp x [] = [x]"
| "insort_cmp cmp x (y # ys) = (if cmp x y \<le> 0 then x # y # ys else y # insort_cmp cmp x ys)"

definition array_sort :: "('a \<Rightarrow> 'a \<Rightarrow> int) \<Rightarrow> 'a list \<Rightarrow> 'a list" where
  "array_sort cmp xs = foldr (insort_cmp cmp) xs []"

definition isLineTerminator :: "jschar \<Rightarrow> bool" where
  \<comment> \<open>the characters that \<open>.\<close> of a regular expression does not match\<close>
  "isLineTerminator c = (c = 0x0A \<or> c = 0x0D \<or> c = 0x2028 \<or> c = 0x2029)"

text \<open>
  \<open>s.replace(/(.{76})/g, '$1\n')\<close>: scanning from the left, 76 consecutive characters that
  are not line terminators are copied and followed by a line feed, and the scan resumes after
  them; where no such match starts, one character is copied.
\<close>

function wrap76 :: "jsstring \<Rightarrow> jsstring" where
  "wrap76 s =
     (if 76 \<le> length s \<and> (\<forall>c \<in> set (take 76 s). \<not> isLineTerminator c)
      then take 76 s @ [0x0A] @ wrap76 (drop 76 s)
      else (case s of [] \<Rightarrow> [] | c # cs \<Rightarrow> c # wrap76 cs))"
  by pat_completeness auto
termination
  by (relation "measure length") auto

section \<open>The canonicalizer (\<open>src/xml-c14n.js\<close>)\<close>

subsection \<open>DOM nodes\<close>

record attr =
  attrName :: jsstring
  localName :: jsstring
  attrPrefix :: jsval
  attrNamespaceURI :: jsval
  attrValue :: jsstring

text \<open>
  One node type with the properties the canonicalizer reads. A text node has \<open>data\<close> and
  neither \<open>tagName\<close> nor \<open>attributes\<close>; an element has no \<open>data\<close>. Every node has
  a list of children, empty for a text node; the canonicalizer reads it only where
  \<open>data\<close> is absent or empty.
\<close>

datatype node = Node
  (nodeData: jsval)
  (tagName: jsval)
  (nodePrefix: jsval)
  (nodeNamespaceURI: jsval)
  (attributes: "attr list option")
  (childNodes: "node list")

subsection \<open>Character escaping\<close>

fun normalizeLineEndings :: "jsstring \<Rightarrow> jsstring" where
  \<comment> \<open>\<open>.replace(/\r\n?/g, '\n')\<close>\<close>
  "normalizeLineEndings [] = []"
| "normalizeLineEndings [c] = (if c = 0x0D then [0x0A] else [c])"
| "normalizeLineEndings (c # d # ds) =
     (if c = 0x0D \<and> d = 0x0A then 0x0A # normalizeLineEndings ds
      else if c = 0x0D then 0x0A # normalizeLineEndings (d # ds)
      else c # normalizeLineEndings (d # ds))"

definition xmlSpecialToEncodedText :: "jschar \<Rightarrow> jsstring" where
  \<comment> \<open>the replacement of \<open>/([&<>\r])/g\<close> through the table of the same name\<close>
  "xmlSpecialToEncodedText c =
     (if c = 0x26 then js ''&amp;''
      else if c = 0x3C then js ''&lt;''
      else if c = 0x3E then js ''&gt;''
      else if c = 0x0D then js ''&#xD;''
      else [c])"

definition encodeSpecialCharactersInText :: "jsstring \<Rightarrow> jsstring" where
  "encodeSpecialCharactersInText text =
     concat (map xmlSpecialToEncodedText (normalizeLineEndings text))"

definition isAttrWhitespace :: "jschar \<Rightarrow> bool" where
  \<comment> \<open>the class \<open>[\r\n\t ]\<close>\<close>
  "isAttrWhitespace c = (c = 0x0D \<or> c = 0x0A \<or> c = 0x09 \<or> c = 0x20)"

function collapseWhitespace :: "jsstring \<Rightarrow> jsstring" where
  \<comment> \<open>\<open>.replace(/[\r\n\t ]+/g, ' ')\<close>\<close>
  "collapseWhitespace [] = []"
| "collapseWhitespace (c # cs) =
     (if isAttrWhitespace c then 0x20 # collapseWhitespace (dropWhile isAttrWhitespace cs)
      else c # collapseWhitespace cs)"
  by pat_completeness auto
termination
  by (relation "measure length") (auto simp: le_imp_less_Suc length_dropWhile_le)

definition xmlSpecialToEncodedAttribute :: "jschar \<Rightarrow> jsstring" where
  \<comment> \<open>the replacement of \<open>/([&<"\r\n\t])/g\<close> through the table of the same name\<close>
  "xmlSpecialToEncodedAttribute c =
     (if c = 0x26 then js ''&amp;''
      else if c = 0x3C then js ''&lt;''
      else if c = 0x22 then js ''&quot;''
      else if c = 0x0D then js ''&#xD;''
      else if c = 0x0A then js ''&#xA;''
      else if c = 0x09 then js ''&#x9;''
      else [c])"

definition encodeSpecialCharactersInAttribute :: "jsstring \<Rightarrow> jsstring" where
  "encodeSpecialCharactersInAttribute attributeValue =
     concat (map xmlSpecialToEncodedAttribute (collapseWhitespace attributeValue))"

subsection \<open>The attribute axis\<close>

definition attrCompare :: "attr \<Rightarrow> attr \<Rightarrow> int" where
  "attrCompare a b =
     (if \<not> truthy (attrNamespaceURI a) \<and> truthy (attrNamespaceURI b) then - 1
      else if \<not> truthy (attrNamespaceURI b) \<and> truthy (attrNamespaceURI a) then 1
      else
        (let left = toStr (attrNamespaceURI a) @ localName a;
             right = toStr (attrNamespaceURI b) @ localName b
         in if left = right then 0 else if left < right then - 1 else 1))"

definition attrListToRender :: "node \<Rightarrow> attr list" where
  \<comment> \<open>the local array of \<open>renderAttrs\<close> after the call of \<open>sort\<close>\<close>
  "attrListToRender n =
     array_sort attrCompare
       (case attributes n of
          None \<Rightarrow> []
        | Some as \<Rightarrow> filter (\<lambda>a. \<not> startsWith (attrName a) (js ''xmlns'')) as)"

definition renderAttr :: "attr \<Rightarrow> jsstring" where
  \<comment> \<open>what one round of the output loop of \<open>renderAttrs\<close> pushes\<close>
  \<open>renderAttr a =
     js '' '' @ attrName a @ js ''="'' @ encodeSpecialCharactersInAttribute (attrValue a) @ js ''"''\<close>

definition renderAttrs :: "node \<Rightarrow> jsval \<Rightarrow> jsstring" where
  "renderAttrs n defaultNS = concat (map renderAttr (attrListToRender n))"

subsection \<open>The namespace axis\<close>

text \<open>
  \<open>prefixesInScope\<close> is an array that \<open>renderNs\<close> extends in place and that
  \<open>processInner\<close> copies with \<open>slice(0)\<close> for every child. Arrays live in a heap:
  \<open>cells\<close> maps an address to the elements of the array there, \<open>fresh\<close> is the next
  unused address.
\<close>

record heap =
  cells :: "nat \<Rightarrow> jsstring list"
  fresh :: nat

definition push :: "nat \<Rightarrow> jsstring \<Rightarrow> heap \<Rightarrow> heap" where
  \<comment> \<open>\<open>arr.push(x)\<close> for the array at address \<open>a\<close>\<close>
  "push a x h = h\<lparr>cells := (cells h)(a := cells h a @ [x])\<rparr>"

definition slice0 :: "nat \<Rightarrow> heap \<Rightarrow> nat \<times> heap" where
  \<comment> \<open>\<open>arr.slice(0)\<close>: a new array with the same elements\<close>
  "slice0 a h = (fresh h, h\<lparr>cells := (cells h)(fresh h := cells h a), fresh := Suc (fresh h)\<rparr>)"

definition notIndexOf :: "nat \<Rightarrow> jsstring \<Rightarrow> heap \<Rightarrow> bool" where
  \<comment> \<open>\<open>arr.indexOf(x) == -1\<close>\<close>
  "notIndexOf a x h = (x \<notin> set (cells h a))"

type_synonym nsdecl = "jsstring \<times> jsval"
  \<comment> \<open>an entry \<open>{prefix, namespaceURI}\<close> of \<open>nsListToRender\<close>\<close>

definition nsCompare :: "(jsstring \<Rightarrow> jsstring \<Rightarrow> int) \<Rightarrow> nsdecl \<Rightarrow> nsdecl \<Rightarrow> int" where
  \<comment> \<open>\<open>localeCompare\<close> belongs to the JavaScript runtime and is a parameter\<close>
  "nsCompare localeCompare a b = (if fst a = fst b then 0 else localeCompare (fst a) (fst b))"

fun renderNsAttrs ::
  "attr list \<Rightarrow> nat \<Rightarrow> jsstring list \<Rightarrow> nsdecl list \<times> heap \<Rightarrow> nsdecl list \<times> heap" where
  \<comment> \<open>the loop of \<open>renderNs\<close> over \<open>node.attributes\<close>\<close>
  "renderNsAttrs [] prefixesInScope inclusiveList (nsList, h) = (nsList, h)"
| "renderNsAttrs (at # as) prefixesInScope inclusiveList (nsList, h) =
     (let (nsList1, h1) =
            (if truthy (attrPrefix at) \<and> notIndexOf prefixesInScope (localName at) h
                \<and> localName at \<in> set inclusiveList
             then (nsList @ [(localName at, Str (attrValue at))],
                   push prefixesInScope (localName at) h)
             else (nsList, h));
          (nsList2, h2) =
            (if truthy (attrPrefix at) \<and> notIndexOf prefixesInScope (joinStr (attrPrefix at)) h1
                \<and> looseNeq (attrPrefix at) (js ''xmlns'') \<and> looseNeq (attrPrefix at) (js ''xml'')
             then (nsList1 @ [(joinStr (attrPrefix at), attrNamespaceURI at)],
                   push prefixesInScope (joinStr (attrPrefix at)) h1)
             else (nsList1, h1))
      in renderNsAttrs as prefixesInScope inclusiveList (nsList2, h2))"

definition renderNsDecl :: "nsdecl \<Rightarrow> jsstring" where
  \<comment> \<open>what one round of the output loop of \<open>renderNs\<close> pushes\<close>
  \<open>renderNsDecl p = js '' xmlns:'' @ fst p @ js ''="'' @ joinStr (snd p) @ js ''"''\<close>

definition renderNs ::
  "(jsstring \<Rightarrow> jsstring \<Rightarrow> int) \<Rightarrow> node \<Rightarrow> nat \<Rightarrow> jsval \<Rightarrow> (jsstring \<Rightarrow> jsval) \<Rightarrow> jsstring list
     \<Rightarrow> heap \<Rightarrow> (jsstring \<times> jsval) \<times> heap" where
  \<comment> \<open>returns \<open>(rendered, newDefaultNs)\<close> and the heap\<close>
  \<open>renderNs localeCompare n prefixesInScope defaultNs defaultNsForPrefix inclusiveList h =
     (let currNs = joinStr (orElse (nodeNamespaceURI n) (Str []));
          (res, newDefaultNs, nsList0, h0) =
            (if truthy (nodePrefix n) then
               (if notIndexOf prefixesInScope (joinStr (nodePrefix n)) h
                then ([], defaultNs,
                      [(joinStr (nodePrefix n),
                        orElse (nodeNamespaceURI n) (defaultNsForPrefix (joinStr (nodePrefix n))))],
                      push prefixesInScope (joinStr (nodePrefix n)) h)
                else ([], defaultNs, [], h))
             else if looseNeq defaultNs currNs then
               (js '' xmlns="'' @ joinStr (nodeNamespaceURI n) @ js ''"'', nodeNamespaceURI n, [], h)
             else ([], defaultNs, [], h));
          (nsList, h1) =
            (case attributes n of
               None \<Rightarrow> (nsList0, h0)
             | Some as \<Rightarrow> renderNsAttrs as prefixesInScope inclusiveList (nsList0, h0))
      in ((res @ concat (map renderNsDecl (array_sort (nsCompare localeCompare) nsList)),
           newDefaultNs), h1))\<close>

subsection \<open>The recursive descent\<close>

fun processInner ::
  "(jsstring \<Rightarrow> jsstring \<Rightarrow> int) \<Rightarrow> node \<Rightarrow> nat \<Rightarrow> jsval \<Rightarrow> (jsstring \<Rightarrow> jsval) \<Rightarrow> jsstring list
     \<Rightarrow> heap \<Rightarrow> jsstring \<times> heap"
and processChildren ::
  "(jsstring \<Rightarrow> jsstring \<Rightarrow> int) \<Rightarrow> node list \<Rightarrow> nat \<Rightarrow> jsval \<Rightarrow> (jsstring \<Rightarrow> jsval)
     \<Rightarrow> jsstring list \<Rightarrow> heap \<Rightarrow> jsstring \<times> heap" where
  \<open>processInner lc (Node dat tag pfx ns attrs children) prefixesInScope defaultNs dnfp incl h =
     (if truthy dat then (encodeSpecialCharactersInText (joinStr dat), h)
      else
        (let n = Node dat tag pfx ns attrs children;
             ((rendered, newDefaultNs), h1) = renderNs lc n prefixesInScope defaultNs dnfp incl h;
             (inner, h2) = processChildren lc children prefixesInScope newDefaultNs dnfp incl h1
         in (js ''<'' @ joinStr tag @ rendered @ renderAttrs n newDefaultNs @ js ''>''
               @ inner @ js ''</'' @ joinStr tag @ js ''>'', h2)))\<close>
| \<comment> \<open>the loop of \<open>processInner\<close> over \<open>node.childNodes\<close>\<close>
  \<open>processChildren lc [] prefixesInScope defaultNs dnfp incl h = ([], h)\<close>
| \<open>processChildren lc (c # cs) prefixesInScope defaultNs dnfp incl h =
     (let (pfxCopy, h1) = slice0 prefixesInScope h;
          (out, h2) = processInner lc c pfxCopy defaultNs dnfp incl h1;
          (rest, h3) = processChildren lc cs prefixesInScope defaultNs dnfp incl h2
      in (out @ rest, h3))\<close>

fun split :: "jschar \<Rightarrow> jsstring \<Rightarrow> jsstring list" where
  \<comment> \<open>\<open>s.split(sep)\<close> for a separator of one character\<close>
  "split sep [] = [[]]"
| "split sep (c # cs) =
     (if c = sep then [] # split sep cs
      else (case split sep cs of [] \<Rightarrow> [[c]] | w # ws \<Rightarrow> (c # w) # ws))"

datatype prefixList = PrefixArray "jsstring list" | PrefixString jsstring

record options =
  inclusiveNamespacesPrefixList :: "prefixList option"
  defaultNs :: jsval
  defaultNsForPrefix :: "(jsstring \<Rightarrow> jsval) option"

definition noOptions :: options where
  \<comment> \<open>the object \<open>{}\<close>\<close>
  "noOptions = \<lparr>inclusiveNamespacesPrefixList = None, defaultNs = Undefined,
                 defaultNsForPrefix = None\<rparr>"

definition emptyHeap :: heap where
  \<comment> \<open>the heap of \<open>process\<close>: the one array \<open>[]\<close> at address 0\<close>
  "emptyHeap = \<lparr>cells = (\<lambda>_. []), fresh = 1\<rparr>"

definition process ::
  "(jsstring \<Rightarrow> jsstring \<Rightarrow> int) \<Rightarrow> node \<Rightarrow> options option \<Rightarrow> jsstring" where
  "process lc n opts =
     (let options = (case opts of None \<Rightarrow> noOptions | Some ops \<Rightarrow> ops);
          inclusiveList =
            (case inclusiveNamespacesPrefixList options of
               None \<Rightarrow> []
             | Some (PrefixArray l) \<Rightarrow> l
             | Some (PrefixString s) \<Rightarrow> (if s = [] then [] else split 0x20 s));
          dns = orElse (defaultNs options) (Str []);
          dnfp = (case defaultNsForPrefix options of None \<Rightarrow> (\<lambda>_. Undefined) | Some m \<Rightarrow> m)
      in fst (processInner lc n 0 dns dnfp inclusiveList emptyHeap))"

section \<open>The package signer (\<open>src/packageSigner.js\<close>)\<close>

subsection \<open>Libraries\<close>

text \<open>
  What \<open>sign\<close> can throw: the \<open>TypeError\<close> of the runtime and the errors of the libraries
  it calls.
\<close>

datatype error = TypeError | CertificateError | PrivateKeyError | ParseError | SignError

text \<open>
  The functions of \<open>crypto\<close>, \<open>node-forge\<close>, \<open>@xmldom/xmldom\<close> and the runtime that the
  signer calls are parameters:
  \<^item> \<open>sha512_base64 d\<close> is \<open>createHash('sha512').update(d).digest('base64')\<close>;
  \<^item> \<open>certificateToPem\<close> and \<open>privateKeyToPem\<close> are the functions of \<open>forge.pki\<close>;
  \<^item> \<open>parseFirstChild s\<close> is
    \<open>new DOMParser().parseFromString(s, 'text/xml').documentElement.firstChild\<close>;
  \<^item> \<open>rsa_sha512_sign m k\<close> is \<open>createSign('RSA-SHA512').update(m).sign(k, 'base64')\<close>;
  \<^item> \<open>localeCompare\<close> is \<open>String.prototype.localeCompare\<close>;
  \<^item> \<open>bufferFrom\<close> is \<open>Buffer.from\<close> on a string (its UTF-8 encoding).
\<close>

record ('c, 'k) lib =
  sha512_base64 :: "buffer \<Rightarrow> jsstring"
  certificateToPem :: "'c \<Rightarrow> error + jsstring"
  privateKeyToPem :: "'k \<Rightarrow> error + jsstring"
  parseFirstChild :: "jsstring \<Rightarrow> error + node"
  rsa_sha512_sign :: "jsstring \<Rightarrow> jsstring \<Rightarrow> error + jsstring"
  localeCompare :: "jsstring \<Rightarrow> jsstring \<Rightarrow> int"
  bufferFrom :: "jsstring \<Rightarrow> buffer"

text \<open>
  A parsed PKCS#12 bundle: \<open>key.safeContents\<close>, each with its \<open>safeBags\<close>; a bag is told
  by its \<open>type\<close>.
\<close>

datatype ('c, 'k) safeBag = CertBag 'c | Pkcs8ShroudedKeyBag 'k | OtherBag

type_synonym ('c, 'k) pkcs12 = "('c, 'k) safeBag list list"

subsection \<open>References\<close>

definition authorPropDigest :: jsstring where
  "authorPropDigest =
     js ''aXbSAVgmAz0GsBUeZ1UmNDRrxkWhDUVGb45dZcNRq429wX3X+x6kaXT3NdNDTSNVTU+ypkysPMGvQY10fG1EWQ==''"

definition distributorPropDigest :: jsstring where
  "distributorPropDigest =
     js ''/r5npk2VVA46QFJnejgONBEh4BWtjrtu9x/IFeLksjWyGmB/cMWKSJWQl7aU3YRQRZ3AesG8gF7qGyvKX9Snig==''"

text \<open>
  The first argument of \<open>createReference\<close> is a \<open>Buffer\<close> for a file and a string for
  \<open>#prop\<close>. A \<open>Buffer\<close> has no method \<open>replace\<close>, so a \<open>Buffer\<close> under the URI
  \<open>#prop\<close> is a \<open>TypeError\<close>; a string under another URI is hashed in its UTF-8 encoding.
\<close>

datatype jsdata = Buf buffer | Txt jsstring

definition transform :: jsstring where
  \<open>transform =
     js ''<Transforms>\<newline>'' @
     js ''<Transform Algorithm="http://www.w3.org/2006/12/xml-c14n11"></Transform>\<newline>'' @
     js ''</Transforms>\<newline>''\<close>

definition createReference :: "('c, 'k) lib \<Rightarrow> jsdata \<Rightarrow> jsstring \<Rightarrow> error + jsstring" where
  \<open>createReference L dat uri =
     (case (if uri \<noteq> js ''#prop''
            then Inr (case dat of Buf b \<Rightarrow> sha512_base64 L b
                                | Txt s \<Rightarrow> sha512_base64 L (bufferFrom L s))
            else (case dat of Buf b \<Rightarrow> Inl TypeError | Txt s \<Rightarrow> Inr s)) of
        Inl e \<Rightarrow> Inl e
      | Inr hashBase64 \<Rightarrow>
          Inr (js ''<Reference URI="'' @ uri @ js ''">\<newline>'' @
               (if uri = js ''#prop'' then transform else []) @
               js ''<DigestMethod Algorithm="http://www.w3.org/2001/04/xmlenc#sha512"></DigestMethod>\<newline>'' @
               js ''<DigestValue>'' @ wrap76 hashBase64 @ js ''</DigestValue>\<newline>'' @
               js ''</Reference>\<newline>''))\<close>

subsection \<open>The class \<open>Signature\<close>\<close>

record File =
  uri :: jsstring
  data :: buffer

text \<open>
  \<open>this.files\<close> is the caller's array, shared with the caller; it is an address in a heap
  of file arrays.
\<close>

type_synonym fileHeap = "nat \<Rightarrow> File list"

record signature =
  sid :: jsstring
  files :: nat
  references :: jsstring
  keyInfo :: jsstring
  signedInfo :: jsstring
  privateKey :: jsstring

definition new_Signature :: "jsstring \<Rightarrow> nat \<Rightarrow> signature" where
  \<comment> \<open>the constructor\<close>
  "new_Signature i fs =
     \<lparr>sid = i, files = fs, references = [], keyInfo = [], signedInfo = [], privateKey = []\<rparr>"

fun createFileReferences :: "('c, 'k) lib \<Rightarrow> File list \<Rightarrow> jsstring \<Rightarrow> error + jsstring" where
  \<comment> \<open>the loop of \<open>_createReferences\<close>, on the value of \<open>this.references\<close>\<close>
  "createFileReferences L [] refs = Inr refs"
| "createFileReferences L (f # fs) refs =
     (case createReference L (Buf (data f)) (uri f) of
        Inl e \<Rightarrow> Inl e
      | Inr reference \<Rightarrow> createFileReferences L fs (refs @ reference))"

definition createReferences ::
  "('c, 'k) lib \<Rightarrow> fileHeap \<Rightarrow> signature \<Rightarrow> error + signature" where
  \<open>createReferences L H this =
     (case createFileReferences L (H (files this)) (references this) of
        Inl e \<Rightarrow> Inl e
      | Inr refs \<Rightarrow>
          (case createReference L
                  (Txt (if sid this = js ''AuthorSignature'' then authorPropDigest
                        else distributorPropDigest))
                  (js ''#prop'') of
             Inl e \<Rightarrow> Inl e
           | Inr reference \<Rightarrow> Inr (this\<lparr>references := refs @ reference\<rparr>)))\<close>

function deleteAll :: "jsstring \<Rightarrow> jsstring \<Rightarrow> jsstring" where
  \<comment> \<open>\<open>s.replace(/pat/g, '')\<close> for a pattern that is a literal string\<close>
  "deleteAll pat [] = []"
| "deleteAll pat (c # cs) =
     (if pat \<noteq> [] \<and> startsWith (c # cs) pat
      then deleteAll pat (drop (length pat) (c # cs))
      else c # deleteAll pat cs)"
  by pat_completeness auto
termination
  by (relation "measure (\<lambda>(pat, s). length s)") auto

definition certificateBody :: "jsstring \<Rightarrow> jsstring" where
  \<comment> \<open>the chain of \<open>replace\<close> calls on the PEM text of a certificate\<close>
  \<open>certificateBody pem =
     wrap76
       (filter (\<lambda>c. c \<noteq> 0x0D \<and> c \<noteq> 0x0A)
          (deleteAll (js ''-----END CERTIFICATE-----'')
             (deleteAll (js ''-----BEGIN CERTIFICATE-----'') pem)))\<close>

fun addKeyInfoBags ::
  "('c, 'k) lib \<Rightarrow> ('c, 'k) safeBag list \<Rightarrow> signature \<Rightarrow> error + signature" where
  \<comment> \<open>the inner loop of \<open>_addKeyInfo\<close>\<close>
  \<open>addKeyInfoBags L [] this = Inr this\<close>
| \<open>addKeyInfoBags L (CertBag cert # bags) this =
     (case certificateToPem L cert of
        Inl e \<Rightarrow> Inl e
      | Inr pem \<Rightarrow>
          (let key = certificateBody pem
           in addKeyInfoBags L bags
                (this\<lparr>keyInfo := keyInfo this @ js ''\<newline><X509Certificate>'' @
                         (if startsWith key (js ''\<newline>'') then [] else js ''\<newline>'') @
                         key @ js ''\<newline></X509Certificate>''\<rparr>)))\<close>
| \<open>addKeyInfoBags L (Pkcs8ShroudedKeyBag k # bags) this =
     (case privateKeyToPem L k of
        Inl e \<Rightarrow> Inl e
      | Inr pem \<Rightarrow> addKeyInfoBags L bags (this\<lparr>privateKey := pem\<rparr>))\<close>
| \<open>addKeyInfoBags L (OtherBag # bags) this = addKeyInfoBags L bags this\<close>

fun addKeyInfoContents ::
  "('c, 'k) lib \<Rightarrow> ('c, 'k) pkcs12 \<Rightarrow> signature \<Rightarrow> error + signature" where
  \<comment> \<open>the outer loop of \<open>_addKeyInfo\<close>\<close>
  "addKeyInfoContents L [] this = Inr this"
| "addKeyInfoContents L (safeBags # rest) this =
     (case addKeyInfoBags L safeBags this of
        Inl e \<Rightarrow> Inl e
      | Inr this' \<Rightarrow> addKeyInfoContents L rest this')"

definition addKeyInfo :: "('c, 'k) lib \<Rightarrow> ('c, 'k) pkcs12 \<Rightarrow> signature \<Rightarrow> error + signature" where
  \<open>addKeyInfo L key this =
     (case addKeyInfoContents L key (this\<lparr>keyInfo := js ''<KeyInfo>\<newline><X509Data>''\<rparr>) of
        Inl e \<Rightarrow> Inl e
      | Inr this' \<Rightarrow>
          Inr (this'\<lparr>keyInfo := keyInfo this' @ js ''\<newline></X509Data>\<newline></KeyInfo>\<newline>''\<rparr>))\<close>

text \<open>
  An options object maps a prefix to the value of its own property of that name, and every
  other prefix to \<open>undefined\<close>. The names that a plain object inherits from
  \<open>Object.prototype\<close> (\<open>constructor\<close>, \<open>toString\<close>, \<open>__proto__\<close> and the like) are left
  out: a prefix is taken not to be one of them.
\<close>

definition signOptions :: options where
  \<comment> \<open>\<open>{ defaultNsForPrefix: { ds: 'http://www.w3c.org/2000/09/xmldsig#' } }\<close>\<close>
  "signOptions =
     \<lparr>inclusiveNamespacesPrefixList = None, defaultNs = Undefined,
      defaultNsForPrefix =
        Some (\<lambda>p. if p = js ''ds'' then Str (js ''http://www.w3c.org/2000/09/xmldsig#'')
                   else Undefined)\<rparr>"

definition generateSignature :: "('c, 'k) lib \<Rightarrow> jsstring \<Rightarrow> signature \<Rightarrow> error + signature" where
  \<open>generateSignature L key this =
     (let signedInfo1 =
            signedInfo this @ js ''<SignedInfo>\<newline>'' @
            js ''<CanonicalizationMethod Algorithm="http://www.w3.org/2001/10/xml-exc-c14n#"></CanonicalizationMethod>\<newline>'' @
            js ''<SignatureMethod Algorithm="http://www.w3.org/2001/04/xmldsig-more#rsa-sha512"></SignatureMethod>\<newline>'' @
            references this @
            js ''</SignedInfo>\<newline>'';
          signWrapper =
            js ''<Signature xmlns="http://www.w3.org/2000/09/xmldsig#">'' @ signedInfo1 @
            js ''</Signature>''
      in case parseFirstChild L signWrapper of
           Inl e \<Rightarrow> Inl e
         | Inr n \<Rightarrow>
             (let C14NResult = process (localeCompare L) n (Some signOptions)
              in case rsa_sha512_sign L C14NResult key of
                   Inl e \<Rightarrow> Inl e
                 | Inr signedKey \<Rightarrow>
                     Inr (this\<lparr>signedInfo := signedInfo1 @ js ''<SignatureValue>\<newline>'' @
                                 wrap76 signedKey @ js ''\<newline></SignatureValue>\<newline>''\<rparr>)))\<close>

definition generateSignatureXML :: "signature \<Rightarrow> jsstring" where
  \<open>generateSignatureXML this =
     js ''<Signature xmlns="http://www.w3.org/2000/09/xmldsig#" Id="'' @ sid this @ js ''">\<newline>'' @
     signedInfo this @
     keyInfo this @
     js ''<Object Id="prop">'' @
     js ''<SignatureProperties xmlns:dsp="http://www.w3.org/2009/xmldsig-properties">'' @
     js ''<SignatureProperty Id="profile" Target="#'' @ sid this @ js ''">'' @
     js ''<dsp:Profile URI="http://www.w3.org/ns/widgets-digsig#profile">'' @
     js ''</dsp:Profile>'' @
     js ''</SignatureProperty>'' @
     js ''<SignatureProperty Id="role" Target="#'' @ sid this @ js ''">'' @
     js ''<dsp:Role URI="http://www.w3.org/ns/widgets-digsig#role-'' @
       (if sid this = js ''AuthorSignature'' then js ''author'' else js ''distributor'') @ js ''">'' @
     js ''</dsp:Role>'' @
     js ''</SignatureProperty>'' @
     js ''<SignatureProperty Id="identifier" Target="#'' @ sid this @ js ''">'' @
     js ''<dsp:Identifier>'' @
     js ''</dsp:Identifier></SignatureProperty></SignatureProperties></Object>\<newline>'' @
     js ''</Signature>\<newline>''\<close>

text \<open>
  \<open>sign\<close> returns the array it was given (its address) or the error, and the heap of file
  arrays after the call. The argument of \<open>unshift\<close> is evaluated before \<open>unshift\<close> runs.
  An instance is signed once and dropped: the fields it is left with are not returned.
\<close>

definition sign ::
  "('c, 'k) lib \<Rightarrow> ('c, 'k) pkcs12 \<Rightarrow> signature \<Rightarrow> fileHeap \<Rightarrow> (error + nat) \<times> fileHeap" where
  \<open>sign L key this H =
     (case createReferences L H this of
        Inl e \<Rightarrow> (Inl e, H)
      | Inr this1 \<Rightarrow>
          (case addKeyInfo L key this1 of
             Inl e \<Rightarrow> (Inl e, H)
           | Inr this2 \<Rightarrow>
               (case generateSignature L (privateKey this2) this2 of
                  Inl e \<Rightarrow> (Inl e, H)
                | Inr this3 \<Rightarrow>
                    (let entry =
                           \<lparr>uri = (if sid this3 = js ''AuthorSignature''
                                    then js ''author-signature.xml'' else js ''signature1.xml''),
                            data = bufferFrom L (generateSignatureXML this3)\<rparr>
                     in (Inr (files this3), H(files this3 := entry # H (files this3)))))))\<close>

section \<open>Vocabulary of the specification\<close>

subsection \<open>Line wrapping and Base64\<close>

text \<open>
  The specification's wrapping of a Base64 body: a newline after every 76 characters.
\<close>

function insertNewlineEvery76 :: "jsstring \<Rightarrow> jsstring" where
  "insertNewlineEvery76 s =
     (if length s < 76 then s else take 76 s @ [0x0A] @ insertNewlineEvery76 (drop 76 s))"
  by pat_completeness auto
termination
  by (relation "measure length") auto

declare insertNewlineEvery76.simps [simp del]

definition base64Char :: "jschar \<Rightarrow> bool" where
  "base64Char c =
     ((0x41 \<le> c \<and> c \<le> 0x5A) \<or> (0x61 \<le> c \<and> c \<le> 0x7A) \<or> (0x30 \<le> c \<and> c \<le> 0x39)
      \<or> c = 0x2B \<or> c = 0x2F \<or> c = 0x3D)"

definition removeLineWraps :: "jsstring \<Rightarrow> jsstring" where
  "removeLineWraps s = filter (\<lambda>c. c \<noteq> 0x0A) s"

subsection \<open>The fragments of the signature document\<close>

text \<open>
  The templates of the specification: the reference of a file, the reference of \<open>#prop\<close>,
  \<open>SignedInfo\<close> followed by \<open>SignatureValue\<close>, and the signature document with its
  \<open>Object\<close> block on one line.
\<close>

definition specFileReference :: "('c, 'k) lib \<Rightarrow> File \<Rightarrow> jsstring" where
  \<open>specFileReference L f =
     js ''<Reference URI="'' @ uri f @ js ''">\<newline>'' @
     js ''<DigestMethod Algorithm="http://www.w3.org/2001/04/xmlenc#sha512"></DigestMethod>\<newline>'' @
     js ''<DigestValue>'' @ insertNewlineEvery76 (sha512_base64 L (data f)) @
     js ''</DigestValue>\<newline>'' @
     js ''</Reference>\<newline>''\<close>

definition specPropReference :: "jsstring \<Rightarrow> jsstring" where
  \<open>specPropReference digest =
     js ''<Reference URI="#prop">\<newline>'' @
     js ''<Transforms>\<newline>'' @
     js ''<Transform Algorithm="http://www.w3.org/2006/12/xml-c14n11"></Transform>\<newline>'' @
     js ''</Transforms>\<newline>'' @
     js ''<DigestMethod Algorithm="http://www.w3.org/2001/04/xmlenc#sha512"></DigestMethod>\<newline>'' @
     js ''<DigestValue>'' @ insertNewlineEvery76 digest @ js ''</DigestValue>\<newline>'' @
     js ''</Reference>\<newline>''\<close>

definition specSignedInfo :: "jsstring \<Rightarrow> jsstring \<Rightarrow> jsstring" where
  \<open>specSignedInfo refs signatureValue =
     js ''<SignedInfo>\<newline>'' @
     js ''<CanonicalizationMethod Algorithm="http://www.w3.org/2001/10/xml-exc-c14n#"></CanonicalizationMethod>\<newline>'' @
     js ''<SignatureMethod Algorithm="http://www.w3.org/2001/04/xmldsig-more#rsa-sha512"></SignatureMethod>\<newline>'' @
     refs @
     js ''</SignedInfo>\<newline>'' @
     js ''<SignatureValue>\<newline>'' @ signatureValue @ js ''\<newline></SignatureValue>\<newline>''\<close>

definition specSignatureDocument ::
  "jsstring \<Rightarrow> jsstring \<Rightarrow> jsstring \<Rightarrow> jsstring \<Rightarrow> jsstring" where
  \<open>specSignatureDocument role signedInfoWithValue keyInfoXml roleName =
     js ''<Signature xmlns="http://www.w3.org/2000/09/xmldsig#" Id="'' @ role @ js ''">\<newline>'' @
     signedInfoWithValue @
     keyInfoXml @
     js ''<Object Id="prop"><SignatureProperties xmlns:dsp="http://www.w3.org/2009/xmldsig-properties"><SignatureProperty Id="profile" Target="#'' @
     role @
     js ''"><dsp:Profile URI="http://www.w3.org/ns/widgets-digsig#profile"></dsp:Profile></SignatureProperty><SignatureProperty Id="role" Target="#'' @
     role @
     js ''"><dsp:Role URI="http://www.w3.org/ns/widgets-digsig#role-'' @ roleName @
     js ''"></dsp:Role></SignatureProperty><SignatureProperty Id="identifier" Target="#'' @
     role @
     js ''"><dsp:Identifier></dsp:Identifier></SignatureProperty></SignatureProperties></Object>\<newline>'' @
     js ''</Signature>\<newline>''\<close>

subsection \<open>Paths and the URIs of a references string\<close>

text \<open>
  The URI of a file entry is a URL-encoded path: the callers build it with
  \<open>encodeURIComponent\<close>, whose output consists of letters, digits, the marks
  \<open>- _ . ! ~ * ' ( )\<close> and percent escapes. \<open>referenceURIs\<close> reads a references string
  the way a consumer does: every occurrence of the opening \<open><Reference URI="\<close> starts
  one \<open>Reference\<close> element, whose URI runs up to the closing quote.
\<close>

definition uriComponentChar :: "jschar \<Rightarrow> bool" where
  "uriComponentChar c =
     ((0x41 \<le> c \<and> c \<le> 0x5A) \<or> (0x61 \<le> c \<and> c \<le> 0x7A) \<or> (0x30 \<le> c \<and> c \<le> 0x39)
      \<or> c = 0x2D \<or> c = 0x5F \<or> c = 0x2E \<or> c = 0x21 \<or> c = 0x7E \<or> c = 0x2A \<or> c = 0x27
      \<or> c = 0x28 \<or> c = 0x29 \<or> c = 0x25)"

definition urlEncoded :: "jsstring \<Rightarrow> bool" where
  "urlEncoded s = list_all uriComponentChar s"

definition referenceOpen :: jsstring where
  \<open>referenceOpen = js ''<Reference URI="''\<close>

fun referenceURIs :: "jsstring \<Rightarrow> jsstring list" where
  "referenceURIs [] = []"
| "referenceURIs (c # cs) =
     (if prefix referenceOpen (c # cs)
      then [takeWhile (\<lambda>x. x \<noteq> 0x22) (drop (length referenceOpen) (c # cs))]
      else [])
     @ referenceURIs cs"

subsection \<open>Observations on a run of \<open>sign\<close>\<close>

text \<open>
  \<open>signSteps\<close> is the three awaited calls of \<open>sign\<close> in sequence and
  \<open>signatureEntry\<close> the object that \<open>sign\<close> hands to \<open>unshift\<close>.
  \<open>signedDocument\<close> is what a caller reads as \<open>(await sign(key))[0].data\<close>.
\<close>

definition signSteps ::
  "('c, 'k) lib \<Rightarrow> ('c, 'k) pkcs12 \<Rightarrow> signature \<Rightarrow> fileHeap \<Rightarrow> error + signature" where
  "signSteps L key this H =
     (case createReferences L H this of
        Inl e \<Rightarrow> Inl e
      | Inr this1 \<Rightarrow>
          (case addKeyInfo L key this1 of
             Inl e \<Rightarrow> Inl e
           | Inr this2 \<Rightarrow> generateSignature L (privateKey this2) this2))"

definition signatureEntry :: "signature \<Rightarrow> ('c, 'k) lib \<Rightarrow> File" where
  "signatureEntry this L =
     \<lparr>uri = (if sid this = js ''AuthorSignature''
              then js ''author-signature.xml'' else js ''signature1.xml''),
      data = bufferFrom L (generateSignatureXML this)\<rparr>"

fun signedDocument :: "(error + nat) \<times> fileHeap \<Rightarrow> error + buffer" where
  "signedDocument (Inl e, H) = Inl e"
| "signedDocument (Inr r, H) = (case H r of [] \<Rightarrow> Inl TypeError | f # _ \<Rightarrow> Inr (data f))"

text \<open>The kinds of bag in a bundle.\<close>

fun isShroudedKeyBag :: "('c, 'k) safeBag \<Rightarrow> bool" where
  "isShroudedKeyBag (Pkcs8ShroudedKeyBag k) = True"
| "isShroudedKeyBag _ = False"

fun isCertBag :: "('c, 'k) safeBag \<Rightarrow> bool" where
  "isCertBag (CertBag c) = True"
| "isCertBag _ = False"

definition hasBag :: "(('c, 'k) safeBag \<Rightarrow> bool) \<Rightarrow> ('c, 'k) pkcs12 \<Rightarrow> bool" where
  "hasBag P key = list_ex (list_ex P) key"

subsection \<open>The order of attributes\<close>

text \<open>
  The specification's order: an attribute without a namespace URI comes before any attribute
  with one; otherwise the attributes compare by the concatenation of namespace URI and local
  name.
\<close>

definition hasNamespace :: "attr \<Rightarrow> bool" where
  "hasNamespace a = truthy (attrNamespaceURI a)"

definition attrKey :: "attr \<Rightarrow> jsstring" where
  "attrKey a = toStr (attrNamespaceURI a) @ localName a"

definition attrBefore :: "attr \<Rightarrow> attr \<Rightarrow> bool" where
  "attrBefore a b =
     (if hasNamespace a = hasNamespace b then attrKey a \<le> attrKey b else hasNamespace b)"

subsection \<open>7-bit ASCII\<close>

definition isAscii :: "jschar \<Rightarrow> bool" where
  "isAscii c = (c < 0x80)"




subsection \<open>The signature document as a function of the inputs\<close>

text \<open>
  The construction of the specification, on values: no instance, no accumulated fields and
  no array. The body of a certificate is its PEM text without the two boundary lines and
  without line breaks, with a newline after every 76 characters.
\<close>

definition specCertificateBody :: "jsstring \<Rightarrow> jsstring" where
  \<open>specCertificateBody pem =
     insertNewlineEvery76
       (filter (\<lambda>c. c \<noteq> 0x0D \<and> c \<noteq> 0x0A)
          (deleteAll (js ''-----END CERTIFICATE-----'')
             (deleteAll (js ''-----BEGIN CERTIFICATE-----'') pem)))\<close>

definition specCertificate :: "jsstring \<Rightarrow> jsstring" where
  \<open>specCertificate pem =
     js ''\<newline><X509Certificate>\<newline>'' @ specCertificateBody pem @ js ''\<newline></X509Certificate>''\<close>

definition specKeyInfo :: "jsstring list \<Rightarrow> jsstring" where
  \<open>specKeyInfo pems =
     js ''<KeyInfo>\<newline><X509Data>'' @ concat (map specCertificate pems) @
     js ''\<newline></X509Data>\<newline></KeyInfo>\<newline>''\<close>

text \<open>
  The key material of a bundle: the PEM texts of its certificates, in the order of the bags,
  and the PEM text of its last private key (the second argument when it has none).
\<close>

fun keyMaterial ::
  "('c, 'k) lib \<Rightarrow> ('c, 'k) safeBag list \<Rightarrow> jsstring \<Rightarrow> error + (jsstring list \<times> jsstring)" where
  "keyMaterial L [] k = Inr ([], k)"
| "keyMaterial L (CertBag cert # bags) k =
     (case certificateToPem L cert of
        Inl e \<Rightarrow> Inl e
      | Inr pem \<Rightarrow>
          (case keyMaterial L bags k of
             Inl e \<Rightarrow> Inl e
           | Inr (pems, k') \<Rightarrow> Inr (pem # pems, k')))"
| "keyMaterial L (Pkcs8ShroudedKeyBag x # bags) k =
     (case privateKeyToPem L x of
        Inl e \<Rightarrow> Inl e
      | Inr pem \<Rightarrow> keyMaterial L bags pem)"
| "keyMaterial L (OtherBag # bags) k = keyMaterial L bags k"

text \<open>The PEM text that the library gives for a certificate bag is 7-bit ASCII.\<close>

fun asciiCertificate :: "('c, 'k) lib \<Rightarrow> ('c, 'k) safeBag \<Rightarrow> bool" where
  "asciiCertificate L (CertBag cert) =
     (case certificateToPem L cert of Inl e \<Rightarrow> True | Inr pem \<Rightarrow> list_all isAscii pem)"
| "asciiCertificate L _ = True"

text \<open>
  \<open>specSign\<close> is the entry that signing a list of files prepends: the references of the
  files and of \<open>#prop\<close>, wrapped in the throwaway root and parsed, the canonical form of
  the first child signed with the private key, the signature value wrapped after every 76
  characters, and the document of the role around it. \<open>specSignRun\<close> is the effect on the
  caller's array: the entry in front of what the array holds, or the error and no change.
\<close>

definition specSignWrapper :: "jsstring \<Rightarrow> jsstring" where
  \<open>specSignWrapper refs =
     js ''<Signature xmlns="http://www.w3.org/2000/09/xmldsig#">'' @
     js ''<SignedInfo>\<newline>'' @
     js ''<CanonicalizationMethod Algorithm="http://www.w3.org/2001/10/xml-exc-c14n#"></CanonicalizationMethod>\<newline>'' @
     js ''<SignatureMethod Algorithm="http://www.w3.org/2001/04/xmldsig-more#rsa-sha512"></SignatureMethod>\<newline>'' @
     refs @
     js ''</SignedInfo>\<newline>'' @
     js ''</Signature>''\<close>

definition specReferences :: "('c, 'k) lib \<Rightarrow> jsstring \<Rightarrow> File list \<Rightarrow> jsstring" where
  "specReferences L role fs =
     concat (map (specFileReference L) fs
             @ [specPropReference (if role = js ''AuthorSignature''
                  then authorPropDigest else distributorPropDigest)])"

definition specSign ::
  "('c, 'k) lib \<Rightarrow> ('c, 'k) pkcs12 \<Rightarrow> jsstring \<Rightarrow> File list \<Rightarrow> error + File" where
  "specSign L key role fs =
     (case keyMaterial L (concat key) [] of
        Inl e \<Rightarrow> Inl e
      | Inr (pems, k) \<Rightarrow>
          (case parseFirstChild L (specSignWrapper (specReferences L role fs)) of
             Inl e \<Rightarrow> Inl e
           | Inr n \<Rightarrow>
               (case rsa_sha512_sign L (process (localeCompare L) n (Some signOptions)) k of
                  Inl e \<Rightarrow> Inl e
                | Inr signatureValue \<Rightarrow>
                    Inr \<lparr>uri = (if role = js ''AuthorSignature''
                                then js ''author-signature.xml'' else js ''signature1.xml''),
                         data = bufferFrom L
                           (specSignatureDocument role
                              (specSignedInfo (specReferences L role fs)
                                 (insertNewlineEvery76 signatureValue))
                              (specKeyInfo pems)
                              (if role = js ''AuthorSignature''
                               then js ''author'' else js ''distributor''))\<rparr>)))"

definition specSignRun ::
  "('c, 'k) lib \<Rightarrow> ('c, 'k) pkcs12 \<Rightarrow> jsstring \<Rightarrow> nat \<Rightarrow> fileHeap \<Rightarrow> (error + nat) \<times> fileHeap" where
  "specSignRun L key role a H =
     (case specSign L key role (H a) of
        Inl e \<Rightarrow> (Inl e, H)
      | Inr entry \<Rightarrow> (Inr a, H(a := entry # H a)))"

section \<open>Example inputs\<close>

text \<open>
  A small stand-in for the libraries, on which the theorems below are instantiated: a digest
  of 88 Base64 characters, PEM texts that are their own encoding, a parser that returns an
  empty \<open>SignedInfo\<close> element, a signer that rejects the empty key as \<open>crypto\<close> does,
  comparison by code units, and a byte per code unit.
\<close>

definition demoNode :: node where
  "demoNode =
     Node Undefined (Str (js ''SignedInfo'')) Null (Str (js ''http://www.w3.org/2000/09/xmldsig#''))
       (Some []) []"

definition demoLib :: "(jsstring, jsstring) lib" where
  "demoLib =
     \<lparr>sha512_base64 = (\<lambda>b. replicate 86 (0x41 + of_nat (length b mod 26)) @ js ''==''),
      certificateToPem = (\<lambda>c. Inr c),
      privateKeyToPem = (\<lambda>k. Inr k),
      parseFirstChild = (\<lambda>s. Inr demoNode),
      rsa_sha512_sign = (\<lambda>m k. if k = [] then Inl SignError else Inr (js ''c2lnbmVk'')),
      localeCompare = (\<lambda>a b. if a = b then 0 else if a < b then - 1 else 1),
      bufferFrom = map ucast\<rparr>"

definition demoFile :: File where
  "demoFile = \<lparr>uri = js ''config.xml'', data = [0x3C, 0x78, 0x2F, 0x3E]\<rparr>"

definition propFile :: File where
  "propFile = \<lparr>uri = js ''#prop'', data = []\<rparr>"

definition demoHeap :: fileHeap where
  "demoHeap = (\<lambda>a. [demoFile])"

definition demoKey :: "(jsstring, jsstring) pkcs12" where
  "demoKey =
     [[CertBag (js ''-----BEGIN CERTIFICATE-----\<newline>QUJD\<newline>-----END CERTIFICATE-----\<newline>''),
       Pkcs8ShroudedKeyBag (js ''key'')]]"

definition certOnlyKey :: "(jsstring, jsstring) pkcs12" where
  "certOnlyKey =
     [[CertBag (js ''-----BEGIN CERTIFICATE-----\<newline>QUJD\<newline>-----END CERTIFICATE-----\<newline>'')]]"

definition keyOnlyKey :: "(jsstring, jsstring) pkcs12" where
  "keyOnlyKey = [[Pkcs8ShroudedKeyBag (js ''key'')]]"

text \<open>
  The certificate of \<open>demoKey\<close>, and the document that the stand-in library gives for a
  role and a list of files.
\<close>

definition demoCertificate :: jsstring where
  "demoCertificate = js ''-----BEGIN CERTIFICATE-----\<newline>QUJD\<newline>-----END CERTIFICATE-----\<newline>''"

definition demoDocument :: "jsstring \<Rightarrow> File list \<Rightarrow> buffer" where
  "demoDocument role fs =
     map ucast
       (specSignatureDocument role
          (specSignedInfo (specReferences demoLib role fs) (js ''c2lnbmVk''))
          (specKeyInfo [demoCertificate])
          (if role = js ''AuthorSignature'' then js ''author'' else js ''distributor''))"

text \<open>
  The element \<open><e xmlns="u" b="2" a="1" xml:lang="en"/>\<close> as the parser builds it, with
  \<open>none\<close> for the namespace URI of an attribute without prefix; two sibling elements with
  the same prefix, as under \<open><r xmlns:p="u">\<close>; and an element with the text
  \<open>U+00E9\<close>.
\<close>

definition exampleElement :: "jsval \<Rightarrow> node" where
  \<open>exampleElement none =
     Node Undefined (Str (js ''e'')) Null (Str (js ''u''))
       (Some
          [\<lparr>attrName = js ''xmlns'', localName = js ''xmlns'', attrPrefix = Null,
            attrNamespaceURI = Str (js ''http://www.w3.org/2000/xmlns/''), attrValue = js ''u''\<rparr>,
           \<lparr>attrName = js ''b'', localName = js ''b'', attrPrefix = Null,
            attrNamespaceURI = none, attrValue = js ''2''\<rparr>,
           \<lparr>attrName = js ''a'', localName = js ''a'', attrPrefix = Null,
            attrNamespaceURI = none, attrValue = js ''1''\<rparr>,
           \<lparr>attrName = js ''xml:lang'', localName = js ''lang'', attrPrefix = Str (js ''xml''),
            attrNamespaceURI = Str (js ''http://www.w3.org/XML/1998/namespace''),
            attrValue = js ''en''\<rparr>])
       []\<close>



declare wrap76.simps [simp del]

declare processChildren.simps(2) [simp del]

declare referenceURIs.simps(2) [simp del]

section \<open>Line wrapping\<close>

lemma base64Char_not_terminator: "base64Char c \<Longrightarrow> \<not> isLineTerminator c"
  by (auto simp: base64Char_def isLineTerminator_def)

lemma base64_no_terminator:
  "list_all base64Char s \<Longrightarrow> \<forall>c \<in> set s. \<not> isLineTerminator c"
  by (simp add: list_all_iff base64Char_not_terminator)

lemma base64_no_newline:
  "list_all base64Char s \<Longrightarrow> \<forall>c \<in> set s. c \<noteq> 0x0A"
  by (auto simp: list_all_iff base64Char_def)

lemma wrap76_short:
  "length s < 76 \<Longrightarrow> \<forall>c \<in> set s. \<not> isLineTerminator c \<Longrightarrow> wrap76 s = s"
proof (induction s)
  case Nil
  then show ?case by (simp add: wrap76.simps)
next
  case (Cons c cs)
  then show ?case by (subst wrap76.simps) simp
qed

lemma wrap76_insertNewlineEvery76:
  "\<forall>c \<in> set s. \<not> isLineTerminator c \<Longrightarrow> wrap76 s = insertNewlineEvery76 s"
proof (induction s rule: insertNewlineEvery76.induct)
  case (1 s)
  show ?case
  proof (cases "length s < 76")
    case True
    with "1.prems" show ?thesis
      by (simp add: wrap76_short insertNewlineEvery76.simps [of s])
  next
    case False
    have tk: "\<forall>c \<in> set (take 76 s). \<not> isLineTerminator c"
      using "1.prems" by (meson in_set_takeD)
    have dr: "\<forall>c \<in> set (drop 76 s). \<not> isLineTerminator c"
      using "1.prems" by (meson in_set_dropD)
    have "wrap76 s = take 76 s @ [0x0A] @ wrap76 (drop 76 s)"
      using False tk by (subst wrap76.simps) simp
    also have "wrap76 (drop 76 s) = insertNewlineEvery76 (drop 76 s)"
      using "1.IH" False dr by simp
    finally show ?thesis
      using False by (simp add: insertNewlineEvery76.simps [of s])
  qed
qed

lemma removeLineWraps_insertNewlineEvery76:
  "\<forall>c \<in> set s. c \<noteq> 0x0A \<Longrightarrow> removeLineWraps (insertNewlineEvery76 s) = s"
proof (induction s rule: insertNewlineEvery76.induct)
  case (1 s)
  show ?case
  proof (cases "length s < 76")
    case True
    with "1.prems" show ?thesis
      by (simp add: insertNewlineEvery76.simps [of s] removeLineWraps_def)
  next
    case False
    have "\<forall>c \<in> set (take 76 s). c \<noteq> 0x0A"
      using "1.prems" by (meson in_set_takeD)
    then have tk: "filter (\<lambda>c. c \<noteq> 0x0A) (take 76 s) = take 76 s"
      by (simp add: filter_id_conv)
    have dr: "\<forall>c \<in> set (drop 76 s). c \<noteq> 0x0A"
      using "1.prems" by (meson in_set_dropD)
    have "removeLineWraps (insertNewlineEvery76 (drop 76 s)) = drop 76 s"
      using "1.IH" False dr by simp
    then show ?thesis
      using False tk by (simp add: insertNewlineEvery76.simps [of s] removeLineWraps_def)
  qed
qed

lemma authorPropDigest_base64: "list_all base64Char authorPropDigest"
  by (simp add: authorPropDigest_def js_def base64Char_def)

lemma distributorPropDigest_base64: "list_all base64Char distributorPropDigest"
  by (simp add: distributorPropDigest_def js_def base64Char_def)

section \<open>References\<close>

lemma createReference_Buf:
  assumes "u \<noteq> js ''#prop''"
    and "list_all base64Char (sha512_base64 L d)"
  shows "createReference L (Buf d) u = Inr (specFileReference L \<lparr>uri = u, data = d\<rparr>)"
proof -
  have "\<forall>c \<in> set (sha512_base64 L d). \<not> isLineTerminator c"
    using assms(2) by (simp add: list_all_iff base64Char_not_terminator)
  then show ?thesis
    using assms(1)
    by (simp add: createReference_def specFileReference_def wrap76_insertNewlineEvery76)
qed

lemma createReference_prop:
  assumes "\<forall>c \<in> set digest. \<not> isLineTerminator c"
  shows "createReference L (Txt digest) (js ''#prop'') = Inr (specPropReference digest)"
  using assms
  by (simp add: createReference_def specPropReference_def transform_def
      wrap76_insertNewlineEvery76 js_def)

lemma createFileReferences_ok:
  assumes "\<forall>f \<in> set fs. uri f \<noteq> js ''#prop''"
    and "\<forall>f \<in> set fs. list_all base64Char (sha512_base64 L (data f))"
  shows "createFileReferences L fs refs = Inr (refs @ concat (map (specFileReference L) fs))"
  using assms
proof (induction fs arbitrary: refs)
  case Nil
  then show ?case by simp
next
  case (Cons f fs)
  have "createReference L (Buf (data f)) (uri f) = Inr (specFileReference L f)"
    using Cons.prems createReference_Buf [of "uri f" L "data f"]
    by (simp add: specFileReference_def)
  then show ?case
    using Cons by simp
qed

lemma createFileReferences_append:
  "createFileReferences L fs refs = Inr r \<Longrightarrow> \<exists>s. r = refs @ s"
proof (induction fs arbitrary: refs)
  case Nil
  then show ?case by simp
next
  case (Cons f fs)
  then show ?case by (fastforce split: sum.splits)
qed

lemma createReferences_Inr:
  assumes "createReferences L H this = Inr t"
  shows "\<exists>refs. references t =
           references this @ refs @
           specPropReference (if sid this = js ''AuthorSignature''
                              then authorPropDigest else distributorPropDigest)"
proof -
  have p: "createReference L (Txt d) (js ''#prop'') = Inr (specPropReference d)"
    if "list_all base64Char d" for d
    using that by (simp add: createReference_prop base64_no_terminator)
  from assms obtain r where
    r: "createFileReferences L (H (files this)) (references this) = Inr r"
    by (auto simp: createReferences_def split: sum.splits)
  then obtain s where s: "r = references this @ s"
    using createFileReferences_append by blast
  show ?thesis
    using assms r s p [OF authorPropDigest_base64] p [OF distributorPropDigest_base64]
    by (auto simp: createReferences_def)
qed

lemma propFile_createReferences:
  "createReferences L (\<lambda>a. [propFile]) (new_Signature i b) = Inl TypeError"
  by (simp add: createReferences_def new_Signature_def propFile_def createReference_def)

lemma demoFile_uri: "uri demoFile \<noteq> js ''#prop''"
  by (simp add: demoFile_def js_def)

lemma demoFile_digest: "list_all base64Char (sha512_base64 demoLib (data demoFile))"
  by (simp add: demoLib_def demoFile_def js_def base64Char_def list_all_iff)

lemma distributor_not_author: "js ''DistributorSignature'' \<noteq> js ''AuthorSignature''"
  by (simp add: js_def)

text \<open>
  C1. For a file entry whose URI is not \<open>#prop\<close>, \<open>createReference\<close> returns exactly one
  fragment: \<open><Reference URI="{uri}">\<close>, the \<open>DigestMethod\<close> element for SHA-512, and a
  \<open>DigestValue\<close> whose content is the Base64 digest of the data with a newline after every
  76 characters; removing the line wraps gives the digest back. The digest is the library's,
  a string of Base64 characters.
\<close>

theorem C1_file_reference:
  assumes "u \<noteq> js ''#prop''"
    and "list_all base64Char (sha512_base64 L d)"
  shows \<open>createReference L (Buf d) u =
           Inr (js ''<Reference URI="'' @ u @ js ''">\<newline>'' @
                js ''<DigestMethod Algorithm="http://www.w3.org/2001/04/xmlenc#sha512"></DigestMethod>\<newline>'' @
                js ''<DigestValue>'' @ insertNewlineEvery76 (sha512_base64 L d) @
                js ''</DigestValue>\<newline>'' @ js ''</Reference>\<newline>'')
         \<and> removeLineWraps (insertNewlineEvery76 (sha512_base64 L d)) = sha512_base64 L d\<close>
proof -
  have nt: "\<forall>c \<in> set (sha512_base64 L d). \<not> isLineTerminator c"
    using assms(2) by (simp add: list_all_iff base64Char_not_terminator)
  then have nl: "\<forall>c \<in> set (sha512_base64 L d). c \<noteq> 0x0A"
    by (auto simp: isLineTerminator_def)
  show ?thesis
    using assms(1) by (simp add: createReference_def wrap76_insertNewlineEvery76 [OF nt]
        removeLineWraps_insertNewlineEvery76 [OF nl])
qed

text \<open>The file \<open>config.xml\<close> with the four bytes \<open><x/>\<close>, under the stand-in digest.\<close>

theorem C1_file_reference_witness:
  \<open>js ''config.xml'' \<noteq> js ''#prop''
   \<and> list_all base64Char (sha512_base64 demoLib [0x3C, 0x78, 0x2F, 0x3E])
   \<and> createReference demoLib (Buf [0x3C, 0x78, 0x2F, 0x3E]) (js ''config.xml'') =
       Inr (js ''<Reference URI="config.xml">\<newline>'' @
            js ''<DigestMethod Algorithm="http://www.w3.org/2001/04/xmlenc#sha512"></DigestMethod>\<newline>'' @
            js ''<DigestValue>'' @ replicate 76 0x45 @ js ''\<newline>'' @ replicate 10 0x45 @ js ''==''
            @ js ''</DigestValue>\<newline>'' @ js ''</Reference>\<newline>'')
   \<and> removeLineWraps (insertNewlineEvery76 (sha512_base64 demoLib [0x3C, 0x78, 0x2F, 0x3E]))
       = replicate 86 0x45 @ js ''==''\<close>
proof -
  have a: \<open>js ''config.xml'' \<noteq> js ''#prop''\<close>
    by (simp add: js_def)
  have d: "sha512_base64 demoLib [0x3C, 0x78, 0x2F, 0x3E] = replicate 86 0x45 @ js ''==''"
    by (simp add: demoLib_def)
  have b: "list_all base64Char (sha512_base64 demoLib [0x3C, 0x78, 0x2F, 0x3E])"
    unfolding d by (simp add: js_def base64Char_def list_all_iff)
  have w: "insertNewlineEvery76 (replicate 86 0x45 @ js ''=='')
             = replicate 76 0x45 @ js ''\<newline>'' @ replicate 10 0x45 @ js ''==''"
    by code_simp
  show ?thesis
    using C1_file_reference [OF a b] a b unfolding d w by (simp add: js_def)
qed

subsection \<open>The URIs of the references\<close>

lemma urlEncoded_chars:
  assumes "urlEncoded u"
  shows "\<forall>c \<in> set u. c \<noteq> 0x3C" and "\<forall>c \<in> set u. c \<noteq> 0x22" and "u \<noteq> js ''#prop''"
proof -
  show "\<forall>c \<in> set u. c \<noteq> 0x3C" and "\<forall>c \<in> set u. c \<noteq> 0x22"
    using assms by (auto simp: urlEncoded_def list_all_iff uriComponentChar_def)
  show "u \<noteq> js ''#prop''"
  proof
    assume "u = js ''#prop''"
    then have "uriComponentChar 0x23"
      using assms by (simp add: urlEncoded_def js_def)
    then show False
      by (simp add: uriComponentChar_def)
  qed
qed

lemma referenceOpen_Cons: "referenceOpen = 0x3C # tl referenceOpen"
  by (simp add: referenceOpen_def js_def)

lemma referenceOpen_tail: "\<forall>c \<in> set (tl referenceOpen). c \<noteq> 0x3C"
  by (simp add: referenceOpen_def js_def)

lemma referenceOpen_no_prefix: "c \<noteq> 0x3C \<Longrightarrow> \<not> prefix referenceOpen (c # cs)"
  by (subst referenceOpen_Cons) simp

lemma referenceURIs_skip_char: "c \<noteq> 0x3C \<Longrightarrow> referenceURIs (c # cs) = referenceURIs cs"
  by (simp add: referenceURIs.simps(2) referenceOpen_no_prefix)

lemma referenceURIs_skip: "\<forall>c \<in> set x. c \<noteq> 0x3C \<Longrightarrow> referenceURIs (x @ t) = referenceURIs t"
  by (induction x) (simp_all add: referenceURIs_skip_char)

lemma referenceURIs_open:
  "referenceURIs (referenceOpen @ t) = takeWhile (\<lambda>x. x \<noteq> 0x22) t # referenceURIs t"
proof -
  define r where "r = tl referenceOpen"
  have r: "referenceOpen = 0x3C # r" and nr: "\<forall>c \<in> set r. c \<noteq> 0x3C"
    unfolding r_def by (rule referenceOpen_Cons, rule referenceOpen_tail)
  show ?thesis
    by (simp add: r referenceURIs.simps(2) referenceURIs_skip nr)
qed

lemma insertNewlineEvery76_chars:
  "\<forall>c \<in> set s. P c \<Longrightarrow> P 0x0A \<Longrightarrow> \<forall>c \<in> set (insertNewlineEvery76 s). P c"
proof (induction s rule: insertNewlineEvery76.induct)
  case (1 s)
  show ?case
  proof (cases "length s < 76")
    case True
    then show ?thesis
      using "1.prems" by (simp add: insertNewlineEvery76.simps [of s])
  next
    case False
    have t: "\<forall>c \<in> set (take 76 s). P c" and d: "\<forall>c \<in> set (drop 76 s). P c"
      using "1.prems"(1) by (meson in_set_takeD, meson in_set_dropD)
    have "\<forall>c \<in> set (insertNewlineEvery76 (drop 76 s)). P c"
      using "1.IH" False d "1.prems"(2) by simp
    then show ?thesis
      using False t "1.prems"(2) by (simp add: insertNewlineEvery76.simps [of s] ball_Un)
  qed
qed

lemma base64_wrapped_no_lt:
  assumes "list_all base64Char d"
  shows "\<forall>c \<in> set (insertNewlineEvery76 d). c \<noteq> 0x3C"
proof (rule insertNewlineEvery76_chars)
  show "\<forall>c \<in> set d. c \<noteq> 0x3C"
    using assms by (auto simp: list_all_iff base64Char_def)
qed simp

lemma referenceURIs_file:
  assumes "urlEncoded (uri f)" and "list_all base64Char (sha512_base64 L (data f))"
  shows "referenceURIs (specFileReference L f @ t) = uri f # referenceURIs t"
proof -
  define dv where "dv = insertNewlineEvery76 (sha512_base64 L (data f))"
  have dv: "\<forall>c \<in> set dv. c \<noteq> 0x3C"
    unfolding dv_def using assms(2) by (rule base64_wrapped_no_lt)
  have u1: "\<forall>c \<in> set (uri f). c \<noteq> 0x3C" and u2: "\<forall>c \<in> set (uri f). c \<noteq> 0x22"
    using urlEncoded_chars [OF assms(1)] by simp_all
  have mid: \<open>referenceURIs (js ''">\<newline>'' @
       js ''<DigestMethod Algorithm="http://www.w3.org/2001/04/xmlenc#sha512"></DigestMethod>\<newline>'' @
       js ''<DigestValue>'' @ r) = referenceURIs r\<close> for r
    by (simp add: js_def referenceURIs.simps(2) referenceOpen_def)
  have fin: \<open>referenceURIs (js ''</DigestValue>\<newline>'' @ js ''</Reference>\<newline>'' @ r)
       = referenceURIs r\<close> for r
    by (simp add: js_def referenceURIs.simps(2) referenceOpen_def)
  have tw: \<open>takeWhile (\<lambda>x. x \<noteq> 0x22) (uri f @ js ''">\<newline>'' @ r) = uri f\<close> for r
    using u2 by (simp add: takeWhile_append2 js_def)
  have \<open>specFileReference L f @ t =
      referenceOpen @ (uri f @ js ''">\<newline>'' @
       js ''<DigestMethod Algorithm="http://www.w3.org/2001/04/xmlenc#sha512"></DigestMethod>\<newline>'' @
       js ''<DigestValue>'' @ dv @ js ''</DigestValue>\<newline>'' @ js ''</Reference>\<newline>'' @ t)\<close>
    by (simp add: specFileReference_def referenceOpen_def dv_def)
  then show ?thesis
    by (simp only: referenceURIs_open tw referenceURIs_skip [OF u1] mid
        referenceURIs_skip [OF dv] fin)
qed

lemma referenceURIs_prop:
  assumes "list_all base64Char d"
  shows "referenceURIs (specPropReference d) = [js ''#prop'']"
proof -
  define dv where "dv = insertNewlineEvery76 d"
  have dv: "\<forall>c \<in> set dv. c \<noteq> 0x3C"
    unfolding dv_def using assms by (rule base64_wrapped_no_lt)
  have fin: \<open>referenceURIs (js ''</DigestValue>\<newline>'' @ js ''</Reference>\<newline>'') = []\<close>
    by (simp add: js_def referenceURIs.simps(2) referenceOpen_def)
  have \<open>referenceURIs (specPropReference d) =
      js ''#prop'' # referenceURIs (dv @ js ''</DigestValue>\<newline>'' @ js ''</Reference>\<newline>'')\<close>
    unfolding specPropReference_def dv_def [symmetric]
    by (simp add: js_def referenceURIs.simps(2) referenceOpen_def)
  then show ?thesis
    by (simp only: referenceURIs_skip [OF dv] fin)
qed

lemma referenceURIs_files:
  assumes "\<forall>f \<in> set fs. urlEncoded (uri f)"
    and "\<forall>f \<in> set fs. list_all base64Char (sha512_base64 L (data f))"
  shows "referenceURIs (concat (map (specFileReference L) fs) @ t) = map uri fs @ referenceURIs t"
  using assms
proof (induction fs)
  case Nil
  then show ?case by simp
next
  case (Cons f fs)
  have "referenceURIs (specFileReference L f @ (concat (map (specFileReference L) fs) @ t))
          = uri f # referenceURIs (concat (map (specFileReference L) fs) @ t)"
    using Cons.prems by (intro referenceURIs_file) simp_all
  then show ?case
    using Cons by simp
qed

lemma urlEncoded_not_prop: "urlEncoded u \<Longrightarrow> u \<noteq> js ''#prop''"
  by (rule urlEncoded_chars)

lemma createFileReferences_urlEncoded:
  assumes "\<forall>f \<in> set fs. urlEncoded (uri f)"
    and "\<forall>f \<in> set fs. list_all base64Char (sha512_base64 L (data f))"
  shows "createFileReferences L fs refs = Inr (refs @ concat (map (specFileReference L) fs))"
  using assms by (intro createFileReferences_ok) (simp_all add: urlEncoded_not_prop)

lemma createReferences_spec:
  assumes "\<forall>f \<in> set (H a). urlEncoded (uri f)"
    and "\<forall>f \<in> set (H a). list_all base64Char (sha512_base64 L (data f))"
  shows "createReferences L H (new_Signature i a) =
           Inr ((new_Signature i a)
                  \<lparr>references :=
                     concat (map (specFileReference L) (H a)
                             @ [specPropReference (if i = js ''AuthorSignature''
                                  then authorPropDigest else distributorPropDigest)])\<rparr>)"
proof -
  have files: "createFileReferences L (H a) [] = Inr (concat (map (specFileReference L) (H a)))"
    using createFileReferences_urlEncoded [OF assms, of "[]"] by simp
  have pref: "createReference L (Txt d) (js ''#prop'') = Inr (specPropReference d)"
    if "list_all base64Char d" for d
    using that by (simp add: createReference_prop base64_no_terminator)
  show ?thesis
    using files pref [OF authorPropDigest_base64] pref [OF distributorPropDigest_base64]
    by (simp add: createReferences_def new_Signature_def)
qed

lemma referenceURIs_references:
  assumes "\<forall>f \<in> set fs. urlEncoded (uri f)"
    and "\<forall>f \<in> set fs. list_all base64Char (sha512_base64 L (data f))"
    and "list_all base64Char d"
  shows "referenceURIs (concat (map (specFileReference L) fs @ [specPropReference d]))
           = map uri fs @ [js ''#prop'']"
  using referenceURIs_files [OF assms(1,2), of "specPropReference d"]
    referenceURIs_prop [OF assms(3)]
  by simp

lemma demoFile_urlEncoded: "urlEncoded (uri demoFile)"
  by (simp add: demoFile_def urlEncoded_def uriComponentChar_def js_def)

text \<open>
  C2. For every list of files with URL-encoded URIs and for every role, reference building
  on a fresh instance succeeds, and the references string holds exactly \<open>|files| + 1\<close>
  \<open>Reference\<close> elements: read off the string, their URIs are the URIs of the files, in
  the order of the list, followed by \<open>#prop\<close>, which is the URI of no file. The string
  is the reference of each file followed by the reference of \<open>#prop\<close>, which carries
  the \<open>Transform\<close> child and the constant digest of the role (the author's for
  \<open>AuthorSignature\<close>, the distributor's otherwise).
\<close>

theorem C2_references:
  assumes "\<forall>f \<in> set (H a). urlEncoded (uri f)"
    and "\<forall>f \<in> set (H a). list_all base64Char (sha512_base64 L (data f))"
  shows "createReferences L H (new_Signature i a) =
           Inr ((new_Signature i a)
                  \<lparr>references :=
                     concat (map (specFileReference L) (H a)
                             @ [specPropReference (if i = js ''AuthorSignature''
                                  then authorPropDigest else distributorPropDigest)])\<rparr>)
         \<and> referenceURIs
               (concat (map (specFileReference L) (H a)
                        @ [specPropReference (if i = js ''AuthorSignature''
                             then authorPropDigest else distributorPropDigest)]))
             = map uri (H a) @ [js ''#prop'']
         \<and> length (referenceURIs
               (concat (map (specFileReference L) (H a)
                        @ [specPropReference (if i = js ''AuthorSignature''
                             then authorPropDigest else distributorPropDigest)])))
             = length (H a) + 1
         \<and> js ''#prop'' \<notin> set (map uri (H a))
         \<and> removeLineWraps (insertNewlineEvery76 (if i = js ''AuthorSignature''
              then authorPropDigest else distributorPropDigest))
             = (if i = js ''AuthorSignature'' then authorPropDigest else distributorPropDigest)"
proof -
  define D where
    "D = (if i = js ''AuthorSignature'' then authorPropDigest else distributorPropDigest)"
  have D: "list_all base64Char D"
    by (simp add: D_def authorPropDigest_base64 distributorPropDigest_base64)
  have u: "referenceURIs (concat (map (specFileReference L) (H a) @ [specPropReference D]))
             = map uri (H a) @ [js ''#prop'']"
    using assms D by (rule referenceURIs_references)
  have n: "js ''#prop'' \<notin> set (map uri (H a))"
  proof
    assume "js ''#prop'' \<in> set (map uri (H a))"
    then obtain f where "f \<in> set (H a)" and "uri f = js ''#prop''"
      by auto
    then show False
      using assms(1) urlEncoded_not_prop [of "uri f"] by simp
  qed
  have w: "removeLineWraps (insertNewlineEvery76 D) = D"
    using D by (simp add: removeLineWraps_insertNewlineEvery76 base64_no_newline)
  show ?thesis
    using createReferences_spec [of H a L i] assms u n w unfolding D_def [symmetric]
    by simp
qed

text \<open>One file and the distributor role: the elements of \<open>config.xml\<close> and \<open>#prop\<close>.\<close>

theorem C2_references_witness:
  "urlEncoded (uri demoFile)
   \<and> list_all base64Char (sha512_base64 demoLib (data demoFile))
   \<and> createReferences demoLib demoHeap (new_Signature (js ''DistributorSignature'') 0) =
       Inr ((new_Signature (js ''DistributorSignature'') 0)
              \<lparr>references :=
                 specFileReference demoLib demoFile @ specPropReference distributorPropDigest\<rparr>)
   \<and> referenceURIs (specFileReference demoLib demoFile @ specPropReference distributorPropDigest)
       = [js ''config.xml'', js ''#prop'']"
  using C2_references [of demoHeap 0 demoLib "js ''DistributorSignature''"]
    demoFile_urlEncoded demoFile_digest distributor_not_author
  by (simp add: demoHeap_def) (simp add: demoFile_def)

section \<open>The steps of \<open>sign\<close>\<close>

subsection \<open>What each step leaves alone\<close>

lemma sign_signSteps:
  "sign L key this H =
     (case signSteps L key this H of
        Inl e \<Rightarrow> (Inl e, H)
      | Inr this3 \<Rightarrow>
          (Inr (files this3), H(files this3 := signatureEntry this3 L # H (files this3))))"
  by (simp add: sign_def signSteps_def signatureEntry_def Let_def split: sum.splits)

lemma createReferences_fields:
  assumes "createReferences L H this = Inr t"
  shows "sid t = sid this \<and> files t = files this \<and> keyInfo t = keyInfo this
         \<and> signedInfo t = signedInfo this \<and> privateKey t = privateKey this"
  using assms by (auto simp: createReferences_def split: sum.splits)

lemma addKeyInfoBags_fields:
  "addKeyInfoBags L bags this = Inr t \<Longrightarrow>
     sid t = sid this \<and> files t = files this \<and> references t = references this
     \<and> signedInfo t = signedInfo this"
proof (induction L bags this rule: addKeyInfoBags.induct)
  case (1 L this)
  then show ?case by simp
next
  case (2 L cert bags this)
  then show ?case by (auto simp: Let_def split: sum.splits)
next
  case (3 L k bags this)
  then show ?case by (auto split: sum.splits)
next
  case (4 L bags this)
  then show ?case by simp
qed

lemma addKeyInfoContents_fields:
  "addKeyInfoContents L key this = Inr t \<Longrightarrow>
     sid t = sid this \<and> files t = files this \<and> references t = references this
     \<and> signedInfo t = signedInfo this"
proof (induction key arbitrary: this)
  case Nil
  then show ?case by simp
next
  case (Cons bags key)
  then show ?case
    by (auto split: sum.splits dest!: addKeyInfoBags_fields)
qed

lemma addKeyInfo_fields:
  assumes "addKeyInfo L key this = Inr t"
  shows "sid t = sid this \<and> files t = files this \<and> references t = references this
         \<and> signedInfo t = signedInfo this"
  using assms
  by (auto simp: addKeyInfo_def split: sum.splits dest!: addKeyInfoContents_fields)

lemma generateSignature_fields:
  assumes "generateSignature L k this = Inr t"
  shows "sid t = sid this \<and> files t = files this \<and> references t = references this
         \<and> keyInfo t = keyInfo this \<and> privateKey t = privateKey this"
  using assms by (auto simp: generateSignature_def Let_def split: sum.splits)

lemma signSteps_fields:
  assumes "signSteps L key this H = Inr t"
  shows "sid t = sid this \<and> files t = files this"
proof -
  from assms obtain t1 t2 where
    "createReferences L H this = Inr t1" "addKeyInfo L key t1 = Inr t2"
    "generateSignature L (privateKey t2) t2 = Inr t"
    by (auto simp: signSteps_def split: sum.splits)
  then show ?thesis
    using createReferences_fields [of L H this t1] addKeyInfo_fields [of L key t1 t2]
      generateSignature_fields [of L "privateKey t2" t2 t]
    by simp
qed

lemma sign_outcome:
  "sign L key this H =
     (case signSteps L key this H of
        Inl e \<Rightarrow> (Inl e, H)
      | Inr this3 \<Rightarrow>
          (Inr (files this), H(files this := signatureEntry this3 L # H (files this))))"
proof (cases "signSteps L key this H")
  case (Inl e)
  then show ?thesis by (simp add: sign_signSteps)
next
  case (Inr t)
  then show ?thesis
    using signSteps_fields [OF Inr] by (simp add: sign_signSteps)
qed

subsection \<open>The array address does not matter\<close>

lemma files_last:
  "this\<lparr>keyInfo := K, files := b\<rparr> = this\<lparr>files := b, keyInfo := K\<rparr>"
  "this\<lparr>privateKey := P, files := b\<rparr> = this\<lparr>files := b, privateKey := P\<rparr>"
  "this\<lparr>references := R, files := b\<rparr> = this\<lparr>files := b, references := R\<rparr>"
  "this\<lparr>signedInfo := S, files := b\<rparr> = this\<lparr>files := b, signedInfo := S\<rparr>"
  by simp_all

lemma createReferences_files:
  assumes "G b = H (files this)"
  shows "createReferences L G (this\<lparr>files := b\<rparr>)
           = map_sum (\<lambda>e. e) (files_update (\<lambda>_. b)) (createReferences L H this)"
  using assms by (simp add: createReferences_def split: sum.splits)

lemma addKeyInfoBags_files:
  "addKeyInfoBags L bags (this\<lparr>files := b\<rparr>)
     = map_sum (\<lambda>e. e) (files_update (\<lambda>_. b)) (addKeyInfoBags L bags this)"
proof (induction bags arbitrary: this)
  case Nil
  then show ?case by simp
next
  case (Cons bag bags)
  show ?case
  proof (cases bag)
    case (CertBag cert)
    show ?thesis
    proof (cases "certificateToPem L cert")
      case (Inl e)
      then show ?thesis using CertBag by simp
    next
      case (Inr pem)
      define K where
        "K = keyInfo this @ js ''\<newline><X509Certificate>'' @
               (if startsWith (certificateBody pem) (js ''\<newline>'') then [] else js ''\<newline>'') @
               certificateBody pem @ js ''\<newline></X509Certificate>''"
      have "addKeyInfoBags L bags (this\<lparr>files := b, keyInfo := K\<rparr>)
              = map_sum (\<lambda>e. e) (files_update (\<lambda>_. b)) (addKeyInfoBags L bags (this\<lparr>keyInfo := K\<rparr>))"
        using Cons.IH [of "this\<lparr>keyInfo := K\<rparr>"] by (simp only: files_last)
      then show ?thesis
        using CertBag Inr unfolding K_def by (simp add: Let_def split del: if_split)
    qed
  next
    case (Pkcs8ShroudedKeyBag k)
    show ?thesis
    proof (cases "privateKeyToPem L k")
      case (Inl e)
      then show ?thesis using Pkcs8ShroudedKeyBag by simp
    next
      case (Inr pem)
      have "addKeyInfoBags L bags (this\<lparr>files := b, privateKey := pem\<rparr>)
              = map_sum (\<lambda>e. e) (files_update (\<lambda>_. b)) (addKeyInfoBags L bags (this\<lparr>privateKey := pem\<rparr>))"
        using Cons.IH [of "this\<lparr>privateKey := pem\<rparr>"] by (simp only: files_last)
      then show ?thesis
        using Pkcs8ShroudedKeyBag Inr by simp
    qed
  next
    case OtherBag
    then show ?thesis using Cons.IH by simp
  qed
qed

lemma addKeyInfoContents_files:
  "addKeyInfoContents L key (this\<lparr>files := b\<rparr>)
     = map_sum (\<lambda>e. e) (files_update (\<lambda>_. b)) (addKeyInfoContents L key this)"
proof (induction key arbitrary: this)
  case Nil
  then show ?case by simp
next
  case (Cons bags key)
  then show ?case
    by (cases "addKeyInfoBags L bags this") (simp_all add: addKeyInfoBags_files)
qed

lemma addKeyInfo_files:
  "addKeyInfo L key (this\<lparr>files := b\<rparr>)
     = map_sum (\<lambda>e. e) (files_update (\<lambda>_. b)) (addKeyInfo L key this)"
proof -
  define k where "k = js ''<KeyInfo>\<newline><X509Data>''"
  have "addKeyInfoContents L key (this\<lparr>files := b, keyInfo := k\<rparr>)
          = map_sum (\<lambda>e. e) (files_update (\<lambda>_. b)) (addKeyInfoContents L key (this\<lparr>keyInfo := k\<rparr>))"
    using addKeyInfoContents_files [where this = "this\<lparr>keyInfo := k\<rparr>" and b = b and L = L
        and key = key]
    by (simp only: files_last)
  then show ?thesis
    unfolding k_def
    by (cases "addKeyInfoContents L key (this\<lparr>keyInfo := js ''<KeyInfo>\<newline><X509Data>''\<rparr>)")
      (simp_all add: addKeyInfo_def)
qed

lemma generateSignature_files:
  "generateSignature L k (this\<lparr>files := b\<rparr>)
     = map_sum (\<lambda>e. e) (files_update (\<lambda>_. b)) (generateSignature L k this)"
  by (simp add: generateSignature_def Let_def split: sum.splits)

lemma signSteps_files:
  assumes "G b = H (files this)"
  shows "signSteps L key (this\<lparr>files := b\<rparr>) G
           = map_sum (\<lambda>e. e) (files_update (\<lambda>_. b)) (signSteps L key this H)"
proof -
  have c: "createReferences L G (this\<lparr>files := b\<rparr>)
             = map_sum (\<lambda>e. e) (files_update (\<lambda>_. b)) (createReferences L H this)"
    using assms by (rule createReferences_files)
  show ?thesis
  proof (cases "createReferences L H this")
    case (Inl e)
    then show ?thesis
      using c by (simp add: signSteps_def)
  next
    case r: (Inr t1)
    show ?thesis
    proof (cases "addKeyInfo L key t1")
      case (Inl e)
      then show ?thesis
        using r c by (simp add: signSteps_def addKeyInfo_files)
    next
      case k: (Inr t2)
      then show ?thesis
        using r c by (simp add: signSteps_def addKeyInfo_files generateSignature_files)
    qed
  qed
qed

lemma signatureEntry_files: "signatureEntry (this\<lparr>files := a\<rparr>) L = signatureEntry this L"
  by (simp add: signatureEntry_def generateSignatureXML_def)

subsection \<open>The document\<close>

lemma generateSignatureXML_spec:
  "generateSignatureXML this =
     specSignatureDocument (sid this) (signedInfo this) (keyInfo this)
       (if sid this = js ''AuthorSignature'' then js ''author'' else js ''distributor'')"
  unfolding generateSignatureXML_def specSignatureDocument_def
  by (simp add: js_def)

lemma generateSignature_Inr:
  assumes "generateSignature L k this = Inr t"
  shows "\<exists>sv. signedInfo t = signedInfo this @ specSignedInfo (references this) sv"
  using assms
  by (auto simp: generateSignature_def specSignedInfo_def Let_def split: sum.splits)

subsection \<open>Key material\<close>

lemma addKeyInfoBags_no_key:
  "\<not> list_ex isShroudedKeyBag bags \<Longrightarrow> addKeyInfoBags L bags this = Inr t \<Longrightarrow>
     privateKey t = privateKey this"
proof (induction L bags this rule: addKeyInfoBags.induct)
  case (1 L this)
  then show ?case by simp
next
  case (2 L cert bags this)
  then show ?case by (auto simp: Let_def split: sum.splits)
next
  case (3 L k bags this)
  then show ?case by simp
next
  case (4 L bags this)
  then show ?case by simp
qed

lemma addKeyInfoContents_no_key:
  "\<not> hasBag isShroudedKeyBag key \<Longrightarrow> addKeyInfoContents L key this = Inr t \<Longrightarrow>
     privateKey t = privateKey this"
proof (induction key arbitrary: this)
  case Nil
  then show ?case by simp
next
  case (Cons bags key)
  then show ?case
    by (auto simp: hasBag_def split: sum.splits dest!: addKeyInfoBags_no_key)
qed

lemma addKeyInfo_no_key:
  assumes "\<not> hasBag isShroudedKeyBag key" and "addKeyInfo L key this = Inr t"
  shows "privateKey t = privateKey this"
  using assms
  by (auto simp: addKeyInfo_def split: sum.splits dest!: addKeyInfoContents_no_key)

lemma generateSignature_empty_key:
  assumes "\<forall>m. \<exists>e. rsa_sha512_sign L m [] = Inl e"
  shows "\<exists>e. generateSignature L [] this = Inl e"
proof -
  define w where
    \<open>w = js ''<Signature xmlns="http://www.w3.org/2000/09/xmldsig#">'' @
          (signedInfo this @ js ''<SignedInfo>\<newline>'' @
           js ''<CanonicalizationMethod Algorithm="http://www.w3.org/2001/10/xml-exc-c14n#"></CanonicalizationMethod>\<newline>'' @
           js ''<SignatureMethod Algorithm="http://www.w3.org/2001/04/xmldsig-more#rsa-sha512"></SignatureMethod>\<newline>'' @
           references this @
           js ''</SignedInfo>\<newline>'') @
          js ''</Signature>''\<close>
  show ?thesis
  proof (cases "parseFirstChild L w")
    case (Inl e)
    then show ?thesis
      unfolding w_def by (simp add: generateSignature_def Let_def)
  next
    case (Inr n)
    obtain e where "rsa_sha512_sign L (process (localeCompare L) n (Some signOptions)) [] = Inl e"
      using assms by blast
    then show ?thesis
      using Inr unfolding w_def by (simp add: generateSignature_def Let_def)
  qed
qed

subsection \<open>Runs of the stand-in library\<close>

lemma demo_key_nonempty: "js ''key'' \<noteq> []"
  by (simp add: js_def)

lemma demo_createReferences:
  "\<exists>t. createReferences demoLib demoHeap (new_Signature i a) = Inr t"
  using demoFile_uri
  by (simp add: createReferences_def createReference_def demoHeap_def new_Signature_def)

lemma demo_addKeyInfo:
  "\<exists>t. addKeyInfo demoLib demoKey this = Inr t \<and> privateKey t = js ''key''"
  by (simp add: addKeyInfo_def demoKey_def demoLib_def Let_def)

lemma keyOnly_addKeyInfo:
  "\<exists>t. addKeyInfo demoLib keyOnlyKey this = Inr t \<and> privateKey t = js ''key''"
  by (simp add: addKeyInfo_def keyOnlyKey_def demoLib_def Let_def)

lemma demo_generateSignature:
  "k \<noteq> [] \<Longrightarrow> \<exists>t. generateSignature demoLib k this = Inr t"
  by (simp add: generateSignature_def demoLib_def Let_def)

lemma demo_signSteps:
  assumes "\<And>this. \<exists>t. addKeyInfo demoLib key this = Inr t \<and> privateKey t = js ''key''"
  shows "\<exists>t. signSteps demoLib key (new_Signature i a) demoHeap = Inr t"
proof -
  obtain t1 where t1: "createReferences demoLib demoHeap (new_Signature i a) = Inr t1"
    using demo_createReferences by blast
  obtain t2 where t2: "addKeyInfo demoLib key t1 = Inr t2" "privateKey t2 = js ''key''"
    using assms by blast
  obtain t3 where "generateSignature demoLib (js ''key'') t2 = Inr t3"
    using demo_generateSignature [OF demo_key_nonempty] by blast
  then show ?thesis
    using t1 t2 by (simp add: signSteps_def)
qed

lemma demo_sign:
  assumes "\<And>this. \<exists>t. addKeyInfo demoLib key this = Inr t \<and> privateKey t = js ''key''"
  shows "\<exists>t. sign demoLib key (new_Signature i a) demoHeap
                = (Inr a, demoHeap(a := signatureEntry t demoLib # demoHeap a))
              \<and> sid t = i"
proof -
  obtain t where t: "signSteps demoLib key (new_Signature i a) demoHeap = Inr t"
    using demo_signSteps [OF assms] by blast
  then have "sid t = i"
    using signSteps_fields [OF t] by (simp add: new_Signature_def)
  moreover have "sign demoLib key (new_Signature i a) demoHeap
      = (Inr a, demoHeap(a := signatureEntry t demoLib # demoHeap a))"
    using t by (simp add: sign_outcome new_Signature_def)
  ultimately show ?thesis
    by blast
qed

subsection \<open>The construction of the specification\<close>

lemma set_deleteAll: "set (deleteAll pat s) \<subseteq> set s"
proof (induction pat s rule: deleteAll.induct)
  case (1 pat)
  then show ?case by simp
next
  case (2 pat c cs)
  show ?case
  proof (cases "pat \<noteq> [] \<and> startsWith (c # cs) pat")
    case True
    then have "set (deleteAll pat (drop (length pat) (c # cs))) \<subseteq> set (drop (length pat) (c # cs))"
      using "2.IH"(1) by simp
    also have "\<dots> \<subseteq> set (c # cs)"
      by (rule set_drop_subset)
    finally show ?thesis
      using True by simp
  next
    case False
    then have "set (deleteAll pat cs) \<subseteq> set cs"
      using "2.IH"(2) by simp
    then show ?thesis
      using False by auto
  qed
qed

lemma ascii_not_terminator: "isAscii c \<Longrightarrow> c \<noteq> 0x0D \<Longrightarrow> c \<noteq> 0x0A \<Longrightarrow> \<not> isLineTerminator c"
  by (auto simp: isAscii_def isLineTerminator_def)

lemma insertNewlineEvery76_hd:
  "\<exists>r. insertNewlineEvery76 (c # cs) = c # r"
  by (subst insertNewlineEvery76.simps) (simp add: take_Cons')

lemma insertNewlineEvery76_no_leading_newline:
  assumes "\<forall>c \<in> set s. c \<noteq> 0x0A"
  shows "\<not> startsWith (insertNewlineEvery76 s) (js ''\<newline>'')"
proof (cases s)
  case Nil
  then show ?thesis
    by (simp add: insertNewlineEvery76.simps [of "[]"] startsWith_def js_def)
next
  case (Cons c cs)
  obtain r where r: "insertNewlineEvery76 s = c # r"
    using insertNewlineEvery76_hd [of c cs] Cons by auto
  have "c \<noteq> 0x0A"
    using assms Cons by simp
  then show ?thesis
    unfolding r by (simp add: startsWith_def js_def)
qed

lemma certificateBody_spec:
  assumes "list_all isAscii pem"
  shows "certificateBody pem = specCertificateBody pem"
    and "\<not> startsWith (certificateBody pem) (js ''\<newline>'')"
proof -
  define s where
    \<open>s = filter (\<lambda>c. c \<noteq> 0x0D \<and> c \<noteq> 0x0A)
          (deleteAll (js ''-----END CERTIFICATE-----'')
             (deleteAll (js ''-----BEGIN CERTIFICATE-----'') pem))\<close>
  have sub: "set s \<subseteq> set pem"
  proof -
    have "set s \<subseteq> set (deleteAll (js ''-----END CERTIFICATE-----'')
             (deleteAll (js ''-----BEGIN CERTIFICATE-----'') pem))"
      unfolding s_def by (rule filter_is_subset)
    also have "\<dots> \<subseteq> set (deleteAll (js ''-----BEGIN CERTIFICATE-----'') pem)"
      by (rule set_deleteAll)
    also have "\<dots> \<subseteq> set pem"
      by (rule set_deleteAll)
    finally show ?thesis .
  qed
  have nt: "\<forall>c \<in> set s. \<not> isLineTerminator c"
  proof
    fix c assume c: "c \<in> set s"
    then have "isAscii c" using sub assms by (auto simp: list_all_iff)
    moreover have "c \<noteq> 0x0D" "c \<noteq> 0x0A" using c by (simp_all add: s_def)
    ultimately show "\<not> isLineTerminator c" by (rule ascii_not_terminator)
  qed
  have nl: "\<forall>c \<in> set s. c \<noteq> 0x0A"
    by (simp add: s_def)
  show e: "certificateBody pem = specCertificateBody pem"
    unfolding certificateBody_def specCertificateBody_def s_def [symmetric]
    using nt by (rule wrap76_insertNewlineEvery76)
  show "\<not> startsWith (certificateBody pem) (js ''\<newline>'')"
    unfolding e specCertificateBody_def s_def [symmetric]
    using nl by (rule insertNewlineEvery76_no_leading_newline)
qed

lemma addKeyInfoBags_keyMaterial:
  assumes "list_all (asciiCertificate L) bags"
  shows "addKeyInfoBags L bags this =
           (case keyMaterial L bags (privateKey this) of
              Inl e \<Rightarrow> Inl e
            | Inr (pems, k) \<Rightarrow>
                Inr (this\<lparr>keyInfo := keyInfo this @ concat (map specCertificate pems),
                          privateKey := k\<rparr>))"
  using assms
proof (induction bags arbitrary: this)
  case Nil
  then show ?case by simp
next
  case (Cons bag bags)
  have rest: "list_all (asciiCertificate L) bags"
    using Cons.prems by simp
  note ih = Cons.IH [OF rest]
  show ?case
  proof (cases bag)
    case (CertBag cert)
    show ?thesis
    proof (cases "certificateToPem L cert")
      case (Inl e)
      then show ?thesis using CertBag by simp
    next
      case (Inr pem)
      then have a: "list_all isAscii pem"
        using Cons.prems CertBag by simp
      define K where "K = keyInfo this @ specCertificate pem"
      have step: "addKeyInfoBags L (bag # bags) this = addKeyInfoBags L bags (this\<lparr>keyInfo := K\<rparr>)"
        using CertBag Inr certificateBody_spec [OF a]
        by (simp add: Let_def K_def specCertificate_def js_def)
      show ?thesis
        unfolding step ih [of "this\<lparr>keyInfo := K\<rparr>"]
        using CertBag Inr by (simp add: K_def split: sum.splits prod.splits)
    qed
  next
    case (Pkcs8ShroudedKeyBag x)
    show ?thesis
    proof (cases "privateKeyToPem L x")
      case (Inl e)
      then show ?thesis using Pkcs8ShroudedKeyBag by simp
    next
      case (Inr pem)
      have step: "addKeyInfoBags L (bag # bags) this
                    = addKeyInfoBags L bags (this\<lparr>privateKey := pem\<rparr>)"
        using Pkcs8ShroudedKeyBag Inr by simp
      show ?thesis
        unfolding step ih [of "this\<lparr>privateKey := pem\<rparr>"]
        using Pkcs8ShroudedKeyBag Inr by (simp split: sum.splits prod.splits)
    qed
  next
    case OtherBag
    then show ?thesis using ih [of this] by simp
  qed
qed


lemma addKeyInfoBags_append:
  "addKeyInfoBags L (xs @ ys) this =
     (case addKeyInfoBags L xs this of Inl e \<Rightarrow> Inl e | Inr t \<Rightarrow> addKeyInfoBags L ys t)"
proof (induction xs arbitrary: this)
  case Nil
  then show ?case by simp
next
  case (Cons bag xs)
  then show ?case
    by (cases bag) (simp_all add: Let_def split: sum.splits)
qed

lemma addKeyInfoContents_concat:
  "addKeyInfoContents L key this = addKeyInfoBags L (concat key) this"
proof (induction key arbitrary: this)
  case Nil
  then show ?case by simp
next
  case (Cons bags key)
  then show ?case
    by (simp add: addKeyInfoBags_append split: sum.splits)
qed

lemma addKeyInfo_spec:
  assumes "list_all (list_all (asciiCertificate L)) key"
  shows "addKeyInfo L key this =
           (case keyMaterial L (concat key) (privateKey this) of
              Inl e \<Rightarrow> Inl e
            | Inr (pems, k) \<Rightarrow> Inr (this\<lparr>keyInfo := specKeyInfo pems, privateKey := k\<rparr>))"
proof -
  have a: "list_all (asciiCertificate L) (concat key)"
    using assms by (auto simp: list_all_iff)
  show ?thesis
    unfolding addKeyInfo_def addKeyInfoContents_concat addKeyInfoBags_keyMaterial [OF a]
    by (simp add: specKeyInfo_def split: sum.splits prod.splits)
qed

lemma generateSignature_spec:
  assumes "\<forall>m k s. rsa_sha512_sign L m k = Inr s \<longrightarrow> list_all base64Char s"
    and "signedInfo this = []"
  shows "generateSignature L k this =
           (case parseFirstChild L (specSignWrapper (references this)) of
              Inl e \<Rightarrow> Inl e
            | Inr n \<Rightarrow>
                (case rsa_sha512_sign L (process (localeCompare L) n (Some signOptions)) k of
                   Inl e \<Rightarrow> Inl e
                 | Inr signatureValue \<Rightarrow>
                     Inr (this\<lparr>signedInfo :=
                                 specSignedInfo (references this)
                                   (insertNewlineEvery76 signatureValue)\<rparr>)))"
proof -
  have w: "wrap76 s = insertNewlineEvery76 s" if "rsa_sha512_sign L m k = Inr s" for m s
    using assms(1) that by (intro wrap76_insertNewlineEvery76 base64_no_terminator) blast
  show ?thesis
    using assms(2)
    by (auto simp: generateSignature_def specSignWrapper_def specSignedInfo_def Let_def w
        split: sum.splits)
qed

lemma sign_specSignRun:
  assumes "\<forall>f \<in> set (H a). urlEncoded (uri f)"
    and "\<forall>f \<in> set (H a). list_all base64Char (sha512_base64 L (data f))"
    and "list_all (list_all (asciiCertificate L)) key"
    and "\<forall>m k s. rsa_sha512_sign L m k = Inr s \<longrightarrow> list_all base64Char s"
  shows "sign L key (new_Signature i a) H = specSignRun L key i a H"
proof -
  define t1 where "t1 = (new_Signature i a)\<lparr>references := specReferences L i (H a)\<rparr>"
  have r: "createReferences L H (new_Signature i a) = Inr t1"
    unfolding t1_def specReferences_def using assms(1,2) by (rule createReferences_spec)
  have k: "addKeyInfo L key t1 =
             (case keyMaterial L (concat key) [] of
                Inl e \<Rightarrow> Inl e
              | Inr (pems, k) \<Rightarrow> Inr (t1\<lparr>keyInfo := specKeyInfo pems, privateKey := k\<rparr>))"
    using addKeyInfo_spec [OF assms(3), of t1] by (simp add: t1_def new_Signature_def)
  have g: "generateSignature L k (t1\<lparr>keyInfo := K, privateKey := k\<rparr>) =
           (case parseFirstChild L (specSignWrapper (specReferences L i (H a))) of
              Inl e \<Rightarrow> Inl e
            | Inr n \<Rightarrow>
                (case rsa_sha512_sign L (process (localeCompare L) n (Some signOptions)) k of
                   Inl e \<Rightarrow> Inl e
                 | Inr signatureValue \<Rightarrow>
                     Inr (t1\<lparr>keyInfo := K, privateKey := k,
                              signedInfo :=
                                 specSignedInfo (specReferences L i (H a))
                                   (insertNewlineEvery76 signatureValue)\<rparr>)))" for k K
  proof -
    have si: "signedInfo (t1\<lparr>keyInfo := K, privateKey := k\<rparr>) = []"
      by (simp add: t1_def new_Signature_def)
    have rf: "references (t1\<lparr>keyInfo := K, privateKey := k\<rparr>) = specReferences L i (H a)"
      by (simp add: t1_def)
    show ?thesis
      using generateSignature_spec [OF assms(4) si, of k] unfolding rf by simp
  qed
  have f: "files (new_Signature i a) = a"
    by (simp add: new_Signature_def)
  show ?thesis
  proof (cases "keyMaterial L (concat key) []")
    case (Inl e)
    then have "signSteps L key (new_Signature i a) H = Inl e"
      by (simp add: signSteps_def r k)
    moreover have "specSign L key i (H a) = Inl e"
      using Inl by (simp add: specSign_def)
    ultimately show ?thesis
      by (simp add: sign_outcome specSignRun_def)
  next
    case (Inr m)
    obtain pems pk where m: "m = (pems, pk)"
      by (cases m)
    define t2 where "t2 = t1\<lparr>keyInfo := specKeyInfo pems, privateKey := pk\<rparr>"
    have k2: "addKeyInfo L key t1 = Inr t2" and pk: "privateKey t2 = pk"
      using Inr m by (simp_all add: k t2_def)
    have steps: "signSteps L key (new_Signature i a) H = generateSignature L pk t2"
      by (simp add: signSteps_def r k2 pk)
    note g2 = g [of pk "specKeyInfo pems"]
    show ?thesis
    proof (cases "parseFirstChild L (specSignWrapper (specReferences L i (H a)))")
      case (Inl e)
      then have "signSteps L key (new_Signature i a) H = Inl e"
        by (simp add: steps t2_def g2)
      moreover have "specSign L key i (H a) = Inl e"
        using Inr m Inl by (simp add: specSign_def)
      ultimately show ?thesis
        by (simp add: sign_outcome specSignRun_def)
    next
      case n: (Inr n)
      show ?thesis
      proof (cases "rsa_sha512_sign L (process (localeCompare L) n (Some signOptions)) pk")
        case (Inl e)
        then have "signSteps L key (new_Signature i a) H = Inl e"
          using n by (simp add: steps t2_def g2)
        moreover have "specSign L key i (H a) = Inl e"
          using Inr m n Inl by (simp add: specSign_def)
        ultimately show ?thesis
          by (simp add: sign_outcome specSignRun_def)
      next
        case sv: (Inr sv)
        define t3 where
          "t3 = t2\<lparr>signedInfo :=
                    specSignedInfo (specReferences L i (H a)) (insertNewlineEvery76 sv)\<rparr>"
        have "signSteps L key (new_Signature i a) H = Inr t3"
          using n sv by (simp add: steps t3_def t2_def g2)
        moreover have "specSign L key i (H a) = Inr (signatureEntry t3 L)"
          using Inr m n sv
          by (simp add: specSign_def signatureEntry_def generateSignatureXML_spec
              t3_def t2_def t1_def new_Signature_def)
        ultimately show ?thesis
          by (simp add: sign_outcome specSignRun_def f)
      qed
    qed
  qed
qed

lemma signedDocument_specSignRun:
  "signedDocument (specSignRun L key i a H) = map_sum (\<lambda>e. e) data (specSign L key i (H a))"
  by (simp add: specSignRun_def split: sum.splits)

lemma demoLib_digest: "list_all base64Char (sha512_base64 demoLib d)"
proof -
  define x :: jschar where "x = 0x41 + of_nat (length d mod 26)"
  have "length d mod 26 < 26"
    by simp
  then have "unat x = 65 + length d mod 26"
    by (simp add: x_def unat_word_ariths unat_of_nat)
  then have "0x41 \<le> x \<and> x \<le> 0x5A"
    by (simp add: word_le_nat_alt)
  then have "base64Char x"
    by (simp add: base64Char_def)
  moreover have "base64Char 0x3D"
    by (simp add: base64Char_def)
  ultimately show ?thesis
    by (simp add: demoLib_def js_def list_all_iff x_def)
qed

lemma demoLib_signature:
  "\<forall>m k s. rsa_sha512_sign demoLib m k = Inr s \<longrightarrow> list_all base64Char s"
  by (simp add: demoLib_def js_def base64Char_def)

lemma demoKey_ascii: "list_all (list_all (asciiCertificate demoLib)) demoKey"
  by (simp add: demoKey_def demoLib_def js_def isAscii_def)


lemma demo_specSign:
  "specSign demoLib demoKey role fs =
     Inr \<lparr>uri = (if role = js ''AuthorSignature''
                 then js ''author-signature.xml'' else js ''signature1.xml''),
          data = demoDocument role fs\<rparr>"
proof -
  have w: "insertNewlineEvery76 (js ''c2lnbmVk'') = js ''c2lnbmVk''"
    by (subst insertNewlineEvery76.simps) (simp add: js_def)
  have k: "keyMaterial demoLib (concat demoKey) [] = Inr ([demoCertificate], js ''key'')"
    by (simp add: demoKey_def demoLib_def demoCertificate_def)
  have p: "parseFirstChild demoLib s = Inr demoNode" for s
    by (simp add: demoLib_def)
  have s: "rsa_sha512_sign demoLib m (js ''key'') = Inr (js ''c2lnbmVk'')" for m
    using demo_key_nonempty by (simp add: demoLib_def)
  have b: "bufferFrom demoLib = map ucast"
    by (simp add: demoLib_def)
  show ?thesis
    by (simp add: specSign_def k p s b demoDocument_def w)
qed

lemma demoDocument_length:
  "length (demoDocument role (f # fs))
     = length (specFileReference demoLib f) + length (demoDocument role fs)"
  by (simp add: demoDocument_def specSignatureDocument_def specSignedInfo_def specReferences_def)

lemma specFileReference_nonempty: "specFileReference L f \<noteq> []"
  by (simp add: specFileReference_def js_def)

lemma demoDocument_grows: "demoDocument role (f # fs) \<noteq> demoDocument role fs"
proof
  assume "demoDocument role (f # fs) = demoDocument role fs"
  then have "length (demoDocument role (f # fs)) = length (demoDocument role fs)"
    by simp
  then show False
    using specFileReference_nonempty [of demoLib f] by (simp add: demoDocument_length)
qed

lemma signatureName_urlEncoded:
  "urlEncoded (js ''author-signature.xml'')" "urlEncoded (js ''signature1.xml'')"
  by (simp_all add: urlEncoded_def uriComponentChar_def js_def)

lemma demo_sign_files:
  assumes "\<forall>f \<in> set (H a). urlEncoded (uri f)"
  shows "sign demoLib demoKey (new_Signature role a) H =
           (Inr a, H(a := \<lparr>uri = (if role = js ''AuthorSignature''
                                   then js ''author-signature.xml'' else js ''signature1.xml''),
                            data = demoDocument role (H a)\<rparr> # H a))"
proof -
  have "sign demoLib demoKey (new_Signature role a) H = specSignRun demoLib demoKey role a H"
    using assms demoKey_ascii demoLib_signature
    by (intro sign_specSignRun) (simp_all add: demoLib_digest)
  then show ?thesis
    by (simp add: specSignRun_def demo_specSign)
qed

section \<open>Properties of \<open>sign\<close>\<close>

text \<open>
  C6, as amended. Two runs of \<open>sign\<close> on fresh instances with the same role, the same key
  material and file arrays of equal contents at the time of each call end alike: both fail
  with the same error, or both succeed and the data of the prepended signature entry is the
  same. When the URIs of the files are URL-encoded, the digests and the signature value are
  Base64 and the PEM texts of the certificates are 7-bit ASCII, each run is the construction
  of the specification: it fails with the error of \<open>specSign\<close> and leaves the array as it
  was, or it puts the entry of \<open>specSign\<close> in front of the array, so that the document is
  a function of the role, the contents of the file list and the key material, and of
  nothing else.
\<close>

theorem C6_same_inputs_same_document:
  assumes "H1 a1 = H2 a2"
  shows "signedDocument (sign L key (new_Signature i a1) H1)
           = signedDocument (sign L key (new_Signature i a2) H2)
         \<and> ((\<forall>f \<in> set (H1 a1). urlEncoded (uri f)
                 \<and> list_all base64Char (sha512_base64 L (data f)))
             \<and> list_all (list_all (asciiCertificate L)) key
             \<and> (\<forall>m k s. rsa_sha512_sign L m k = Inr s \<longrightarrow> list_all base64Char s)
             \<longrightarrow> sign L key (new_Signature i a1) H1 = specSignRun L key i a1 H1
                 \<and> sign L key (new_Signature i a2) H2 = specSignRun L key i a2 H2
                 \<and> signedDocument (sign L key (new_Signature i a1) H1)
                     = map_sum (\<lambda>e. e) data (specSign L key i (H1 a1)))"
proof -
  have n: "new_Signature i a2 = (new_Signature i a1)\<lparr>files := a2\<rparr>"
    by (simp add: new_Signature_def)
  have a: "H2 a2 = H1 (files (new_Signature i a1))"
    using assms by (simp add: new_Signature_def)
  have s: "signSteps L key (new_Signature i a2) H2
             = map_sum (\<lambda>e. e) (files_update (\<lambda>_. a2)) (signSteps L key (new_Signature i a1) H1)"
    unfolding n using a by (rule signSteps_files)
  have same: "signedDocument (sign L key (new_Signature i a1) H1)
                = signedDocument (sign L key (new_Signature i a2) H2)"
  proof (cases "signSteps L key (new_Signature i a1) H1")
    case (Inl e)
    then show ?thesis using s by (simp add: sign_outcome)
  next
    case (Inr t)
    then show ?thesis
      using s by (simp add: sign_outcome new_Signature_def signatureEntry_files)
  qed
  have spec: "sign L key (new_Signature i a1) H1 = specSignRun L key i a1 H1
              \<and> sign L key (new_Signature i a2) H2 = specSignRun L key i a2 H2
              \<and> signedDocument (sign L key (new_Signature i a1) H1)
                  = map_sum (\<lambda>e. e) data (specSign L key i (H1 a1))"
    if f: "\<forall>f \<in> set (H1 a1). urlEncoded (uri f)
              \<and> list_all base64Char (sha512_base64 L (data f))"
      and c: "list_all (list_all (asciiCertificate L)) key"
      and g: "\<forall>m k s. rsa_sha512_sign L m k = Inr s \<longrightarrow> list_all base64Char s"
  proof -
    have u1: "\<forall>f \<in> set (H1 a1). urlEncoded (uri f)"
      and d1: "\<forall>f \<in> set (H1 a1). list_all base64Char (sha512_base64 L (data f))"
      using f by simp_all
    have u2: "\<forall>f \<in> set (H2 a2). urlEncoded (uri f)"
      and d2: "\<forall>f \<in> set (H2 a2). list_all base64Char (sha512_base64 L (data f))"
      using f assms by simp_all
    have r1: "sign L key (new_Signature i a1) H1 = specSignRun L key i a1 H1"
      using u1 d1 c g by (rule sign_specSignRun)
    have r2: "sign L key (new_Signature i a2) H2 = specSignRun L key i a2 H2"
      using u2 d2 c g by (rule sign_specSignRun)
    show ?thesis
      using r1 r2 by (simp add: signedDocument_specSignRun)
  qed
  show ?thesis
    using same spec by blast
qed

text \<open>
  Two arrays of equal contents at the addresses 0 and 7, under the stand-in library: both
  runs give the document of the role for the one file.
\<close>

theorem C6_same_inputs_same_document_witness:
  "demoHeap 0 = demoHeap 7
   \<and> urlEncoded (uri demoFile)
   \<and> list_all base64Char (sha512_base64 demoLib (data demoFile))
   \<and> list_all (list_all (asciiCertificate demoLib)) demoKey
   \<and> list_all base64Char (js ''c2lnbmVk'')
   \<and> signedDocument (sign demoLib demoKey (new_Signature (js ''AuthorSignature'') 0) demoHeap)
       = signedDocument (sign demoLib demoKey (new_Signature (js ''AuthorSignature'') 7) demoHeap)
   \<and> sign demoLib demoKey (new_Signature (js ''AuthorSignature'') 7) demoHeap
       = specSignRun demoLib demoKey (js ''AuthorSignature'') 7 demoHeap
   \<and> signedDocument (sign demoLib demoKey (new_Signature (js ''AuthorSignature'') 0) demoHeap)
       = Inr (demoDocument (js ''AuthorSignature'') [demoFile])"
proof -
  have h: "demoHeap a = [demoFile]" for a
    by (simp add: demoHeap_def)
  have b: "list_all base64Char (js ''c2lnbmVk'')"
    by (simp add: js_def base64Char_def)
  show ?thesis
    using C6_same_inputs_same_document
      [of demoHeap 0 demoHeap 7 demoLib demoKey "js ''AuthorSignature''"]
      demoFile_urlEncoded demoFile_digest demoKey_ascii demoLib_signature b
    by (simp add: h demo_specSign signedDocument_specSignRun)
qed

text \<open>
  C6 as stated fails when the file list of the two runs is the same array: the first run
  prepends its entry to the array in place, the second run signs the array with that entry
  in it, and its document has one \<open>Reference\<close> more.
\<close>

theorem C6_counterexample:
  "fst (sign demoLib demoKey (new_Signature (js ''AuthorSignature'') 0) demoHeap) = Inr 0
   \<and> fst (sign demoLib demoKey (new_Signature (js ''AuthorSignature'') 0)
           (snd (sign demoLib demoKey (new_Signature (js ''AuthorSignature'') 0) demoHeap)))
       = Inr 0
   \<and> signedDocument (sign demoLib demoKey (new_Signature (js ''AuthorSignature'') 0) demoHeap)
       \<noteq> signedDocument
           (sign demoLib demoKey (new_Signature (js ''AuthorSignature'') 0)
              (snd (sign demoLib demoKey (new_Signature (js ''AuthorSignature'') 0) demoHeap)))"
proof -
  define e where
    "e = \<lparr>uri = js ''author-signature.xml'',
          data = demoDocument (js ''AuthorSignature'') [demoFile]\<rparr>"
  define H' where "H' = demoHeap(0 := [e, demoFile])"
  have h: "demoHeap a = [demoFile]" for a
    by (simp add: demoHeap_def)
  have u1: "\<forall>f \<in> set (demoHeap 0). urlEncoded (uri f)"
    by (simp add: h demoFile_urlEncoded)
  have r1: "sign demoLib demoKey (new_Signature (js ''AuthorSignature'') 0) demoHeap = (Inr 0, H')"
    using demo_sign_files [of demoHeap 0 "js ''AuthorSignature''"] u1
    by (simp add: H'_def e_def h)
  have u2: "\<forall>f \<in> set (H' 0). urlEncoded (uri f)"
    by (simp add: H'_def e_def demoFile_urlEncoded signatureName_urlEncoded)
  have r2: "sign demoLib demoKey (new_Signature (js ''AuthorSignature'') 0) H'
              = (Inr 0, H'(0 := \<lparr>uri = js ''author-signature.xml'',
                                  data = demoDocument (js ''AuthorSignature'') [e, demoFile]\<rparr>
                                # H' 0))"
    using demo_sign_files [of H' 0 "js ''AuthorSignature''"] u2
    by (simp add: H'_def)
  show ?thesis
    unfolding r1 snd_conv fst_conv r2
    using demoDocument_grows [of "js ''AuthorSignature''" e "[demoFile]"]
    by (simp add: H'_def e_def)
qed

text \<open>
  C7. When \<open>sign\<close> fails, at whichever step, the heap of file arrays is the one before the
  call: the caller's list is unchanged. When it succeeds, reference building, key extraction
  and signing have all succeeded before the entry is prepended.
\<close>

theorem C7_failure_leaves_files:
  "(sign L key this H = (Inl e, H') \<longrightarrow> H' = H)
   \<and> (sign L key this H = (Inr r, H') \<longrightarrow>
        (\<exists>t1 t2 t3. createReferences L H this = Inr t1 \<and> addKeyInfo L key t1 = Inr t2
           \<and> generateSignature L (privateKey t2) t2 = Inr t3))"
  by (auto simp: sign_outcome signSteps_def split: sum.splits)

text \<open>A run that fails in reference building, and a run that succeeds.\<close>

theorem C7_failure_leaves_files_witness:
  "sign demoLib demoKey (new_Signature (js ''AuthorSignature'') 0) (\<lambda>a. [propFile])
     = (Inl TypeError, \<lambda>a. [propFile])
   \<and> fst (sign demoLib demoKey (new_Signature (js ''AuthorSignature'') 0) demoHeap) = Inr 0
   \<and> (\<exists>t1 t2 t3.
         createReferences demoLib demoHeap (new_Signature (js ''AuthorSignature'') 0) = Inr t1
         \<and> addKeyInfo demoLib demoKey t1 = Inr t2
         \<and> generateSignature demoLib (privateKey t2) t2 = Inr t3)"
proof -
  have f: "fst (sign demoLib demoKey (new_Signature (js ''AuthorSignature'') 0) (\<lambda>a. [propFile]))
             = Inl TypeError"
    by (simp add: sign_def propFile_createReferences)
  then have "sign demoLib demoKey (new_Signature (js ''AuthorSignature'') 0) (\<lambda>a. [propFile])
      = (Inl TypeError,
         snd (sign demoLib demoKey (new_Signature (js ''AuthorSignature'') 0) (\<lambda>a. [propFile])))"
    by (metis prod.collapse)
  then have a: "sign demoLib demoKey (new_Signature (js ''AuthorSignature'') 0) (\<lambda>a. [propFile])
      = (Inl TypeError, \<lambda>a. [propFile])"
    using C7_failure_leaves_files by metis
  obtain H' where
    s: "sign demoLib demoKey (new_Signature (js ''AuthorSignature'') 0) demoHeap = (Inr 0, H')"
    using demo_sign [OF demo_addKeyInfo, of "js ''AuthorSignature''" 0] by blast
  have "\<exists>t1 t2 t3.
         createReferences demoLib demoHeap (new_Signature (js ''AuthorSignature'') 0) = Inr t1
         \<and> addKeyInfo demoLib demoKey t1 = Inr t2
         \<and> generateSignature demoLib (privateKey t2) t2 = Inr t3"
    using C7_failure_leaves_files [of demoLib demoKey "new_Signature (js ''AuthorSignature'') 0"
        demoHeap TypeError H' 0] s
    by blast
  then show ?thesis
    using a s by simp
qed

text \<open>
  C8, as amended. If the bundle holds no shrouded-private-key bag, the signer is called with
  the empty key; the signer of \<open>crypto\<close> rejects it, so \<open>sign\<close> fails (with that error,
  or with the error of an earlier step) and leaves the file list as it was. The code has no
  error kind of its own for key material, and it makes no check for certificates.
\<close>

theorem C8_no_private_key:
  assumes "\<not> hasBag isShroudedKeyBag key"
    and "\<forall>m. \<exists>e. rsa_sha512_sign L m [] = Inl e"
  shows "\<exists>e. sign L key (new_Signature i a) H = (Inl e, H)"
proof (cases "signSteps L key (new_Signature i a) H")
  case (Inl e)
  then show ?thesis by (simp add: sign_outcome)
next
  case (Inr t)
  then obtain t1 t2 where
    s1: "createReferences L H (new_Signature i a) = Inr t1" and
    s2: "addKeyInfo L key t1 = Inr t2" and
    s3: "generateSignature L (privateKey t2) t2 = Inr t"
    by (auto simp: signSteps_def split: sum.splits)
  have "privateKey t1 = []"
    using createReferences_fields [OF s1] by (simp add: new_Signature_def)
  then have "privateKey t2 = []"
    using addKeyInfo_no_key [OF assms(1) s2] by simp
  then have "\<exists>e. generateSignature L (privateKey t2) t2 = Inl e"
    using generateSignature_empty_key [OF assms(2)] by simp
  then show ?thesis using s3 by auto
qed

text \<open>A bundle with a certificate and no key.\<close>

theorem C8_no_private_key_witness:
  "\<not> hasBag isShroudedKeyBag certOnlyKey
   \<and> (\<forall>m. \<exists>e. rsa_sha512_sign demoLib m [] = Inl e)
   \<and> (\<exists>e. sign demoLib certOnlyKey (new_Signature (js ''AuthorSignature'') 0) demoHeap
            = (Inl e, demoHeap))"
proof -
  have a: "\<not> hasBag isShroudedKeyBag certOnlyKey"
    by (simp add: hasBag_def certOnlyKey_def)
  have b: "\<forall>m. \<exists>e. rsa_sha512_sign demoLib m [] = Inl e"
    by (simp add: demoLib_def)
  show ?thesis
    using C8_no_private_key [OF a b] a b by simp
qed

text \<open>
  C8 as stated fails on a bundle with a key and no certificate bag: \<open>sign\<close> succeeds and
  prepends a signature whose \<open>X509Data\<close> is empty.
\<close>

theorem C8_counterexample:
  "\<not> hasBag isCertBag keyOnlyKey
   \<and> fst (sign demoLib keyOnlyKey (new_Signature (js ''AuthorSignature'') 0) demoHeap) = Inr 0
   \<and> map uri (snd (sign demoLib keyOnlyKey (new_Signature (js ''AuthorSignature'') 0) demoHeap) 0)
       = [js ''author-signature.xml'', js ''config.xml'']"
proof -
  obtain t where
    "sign demoLib keyOnlyKey (new_Signature (js ''AuthorSignature'') 0) demoHeap
       = (Inr 0, demoHeap(0 := signatureEntry t demoLib # demoHeap 0))"
    and "sid t = js ''AuthorSignature''"
    using demo_sign [OF keyOnly_addKeyInfo] by blast
  then show ?thesis
    by (simp add: hasBag_def keyOnlyKey_def signatureEntry_def demoHeap_def demoFile_def)
qed

text \<open>
  C9. When \<open>sign\<close> succeeds on a fresh instance with the id \<open>i\<close>, the entry at index 0 of
  the list holds the specification's document for \<open>i\<close>. If \<open>i\<close> is exactly
  \<open>AuthorSignature\<close>, its last reference carries the author digest, the role URI ends in
  \<open>role-author\<close> and the file is \<open>author-signature.xml\<close>; for every other string,
  \<open>DistributorSignature\<close> among them, the digest is the distributor's, the role URI ends in
  \<open>role-distributor\<close> and the file is \<open>signature1.xml\<close>.
\<close>

theorem C9_role_selection:
  assumes "sign L key (new_Signature i a) H = (Inr r, H')"
  shows "\<exists>refs sv ki.
           hd (H' a) =
             \<lparr>uri = (if i = js ''AuthorSignature''
                      then js ''author-signature.xml'' else js ''signature1.xml''),
              data = bufferFrom L
                (specSignatureDocument i
                   (specSignedInfo
                      (refs @ specPropReference (if i = js ''AuthorSignature''
                                 then authorPropDigest else distributorPropDigest))
                      sv)
                   ki
                   (if i = js ''AuthorSignature'' then js ''author'' else js ''distributor''))\<rparr>"
proof -
  from assms obtain t where t: "signSteps L key (new_Signature i a) H = Inr t"
    and H': "H' = H(a := signatureEntry t L # H a)"
    by (auto simp: sign_outcome new_Signature_def split: sum.splits)
  from t obtain t1 t2 where
    s1: "createReferences L H (new_Signature i a) = Inr t1" and
    s2: "addKeyInfo L key t1 = Inr t2" and
    s3: "generateSignature L (privateKey t2) t2 = Inr t"
    by (auto simp: signSteps_def split: sum.splits)
  obtain refs where refs:
    "references t1 = refs @ specPropReference (if i = js ''AuthorSignature''
                                 then authorPropDigest else distributorPropDigest)"
    using createReferences_Inr [OF s1] by (auto simp: new_Signature_def)
  have f1: "signedInfo t1 = []"
    using createReferences_fields [OF s1] by (simp add: new_Signature_def)
  have f2: "signedInfo t2 = [] \<and> references t2 = references t1"
    using addKeyInfo_fields [OF s2] f1 by simp
  obtain sv where sv: "signedInfo t = specSignedInfo (references t1) sv"
    using generateSignature_Inr [OF s3] f2 by auto
  have "sid t = i"
    using signSteps_fields [OF t] by (simp add: new_Signature_def)
  then have "signatureEntry t L =
      \<lparr>uri = (if i = js ''AuthorSignature''
               then js ''author-signature.xml'' else js ''signature1.xml''),
       data = bufferFrom L
         (specSignatureDocument i
            (specSignedInfo
               (refs @ specPropReference (if i = js ''AuthorSignature''
                          then authorPropDigest else distributorPropDigest))
               sv)
            (keyInfo t)
            (if i = js ''AuthorSignature'' then js ''author'' else js ''distributor''))\<rparr>"
    using sv refs by (simp add: signatureEntry_def generateSignatureXML_spec)
  then show ?thesis
    using H' by auto
qed

text \<open>The distributor role.\<close>

theorem C9_role_selection_witness:
  "fst (sign demoLib demoKey (new_Signature (js ''DistributorSignature'') 0) demoHeap) = Inr 0
   \<and> (\<exists>refs sv ki.
        hd (snd (sign demoLib demoKey (new_Signature (js ''DistributorSignature'') 0) demoHeap) 0) =
          \<lparr>uri = js ''signature1.xml'',
           data = bufferFrom demoLib
             (specSignatureDocument (js ''DistributorSignature'')
                (specSignedInfo (refs @ specPropReference distributorPropDigest) sv)
                ki (js ''distributor''))\<rparr>)"
proof -
  obtain H' where
    s: "sign demoLib demoKey (new_Signature (js ''DistributorSignature'') 0) demoHeap = (Inr 0, H')"
    using demo_sign [OF demo_addKeyInfo, of "js ''DistributorSignature''" 0] by blast
  show ?thesis
    using C9_role_selection [OF s] s distributor_not_author by simp
qed



section \<open>The attribute axis\<close>

lemma attrCompare_le: "attrCompare a b \<le> 0 \<longleftrightarrow> attrBefore a b"
  by (auto simp: attrCompare_def attrBefore_def hasNamespace_def attrKey_def Let_def)

lemma attrBefore_total: "attrBefore a b \<or> attrBefore b a"
  by (auto simp: attrBefore_def)

lemma attrBefore_trans: "attrBefore a b \<Longrightarrow> attrBefore b c \<Longrightarrow> attrBefore a c"
  by (auto simp: attrBefore_def split: if_splits)

lemma set_insort_cmp: "set (insort_cmp cmp x xs) = insert x (set xs)"
  by (induction xs) auto

lemma mset_insort_cmp: "mset (insort_cmp cmp x xs) = add_mset x (mset xs)"
  by (induction xs) auto

lemma mset_array_sort: "mset (array_sort cmp xs) = mset xs"
  by (induction xs) (simp_all add: array_sort_def mset_insort_cmp)


lemma sorted_insort_cmp:
  assumes le: "\<And>a b. cmp a b \<le> 0 \<longleftrightarrow> before a b"
    and total: "\<And>a b. before a b \<or> before b a"
    and trans: "\<And>a b c. before a b \<Longrightarrow> before b c \<Longrightarrow> before a c"
  shows "sorted_wrt before xs \<Longrightarrow> sorted_wrt before (insort_cmp cmp x xs)"
proof (induction xs)
  case Nil
  then show ?case by simp
next
  case (Cons y ys)
  show ?case
  proof (cases "cmp x y \<le> 0")
    case True
    then have xy: "before x y" by (simp add: le)
    have "\<forall>z \<in> set ys. before x z"
      using Cons.prems xy trans by auto
    then show ?thesis
      using True xy Cons.prems by simp
  next
    case False
    then have yx: "before y x" using le total by blast
    have "sorted_wrt before (insort_cmp cmp x ys)"
      using Cons by simp
    then show ?thesis
      using False yx Cons.prems by (simp add: set_insort_cmp)
  qed
qed

lemma sorted_array_sort:
  assumes "\<And>a b. cmp a b \<le> 0 \<longleftrightarrow> before a b"
    and "\<And>a b. before a b \<or> before b a"
    and "\<And>a b c. before a b \<Longrightarrow> before b c \<Longrightarrow> before a c"
  shows "sorted_wrt before (array_sort cmp xs)"
proof (induction xs)
  case Nil
  then show ?case by (simp add: array_sort_def)
next
  case (Cons x xs)
  have "array_sort cmp (x # xs) = insort_cmp cmp x (array_sort cmp xs)"
    by (simp add: array_sort_def)
  then show ?case
    using sorted_insort_cmp [of cmp before, OF assms] Cons by simp
qed

lemma example_attrs:
  "\<not> truthy none \<Longrightarrow>
   map attrName (attrListToRender (exampleElement none)) = [js ''a'', js ''b'', js ''xml:lang'']"
  by (cases none)
    (simp_all add: attrListToRender_def exampleElement_def array_sort_def attrCompare_def
      startsWith_def js_def)

lemma example_output:
  assumes "\<not> truthy none"
  shows \<open>process lc (exampleElement none) None = js ''<e xmlns="u" a="1" b="2" xml:lang="en"></e>''\<close>
  using assms
  by (cases none)
    (simp_all add: process_def noOptions_def emptyHeap_def exampleElement_def renderNs_def
      notIndexOf_def renderAttrs_def renderAttr_def attrListToRender_def array_sort_def
      attrCompare_def startsWith_def encodeSpecialCharactersInAttribute_def
      isAttrWhitespace_def xmlSpecialToEncodedAttribute_def renderNsDecl_def js_def)

section \<open>The heap of prefix arrays\<close>

subsection \<open>What \<open>renderNs\<close> does to the heap\<close>





subsection \<open>What the descent does to the heap\<close>



lemma processInner_element:
  assumes "\<not> truthy (nodeData n)"
  shows "processInner lc n a dns dnfp incl h =
     (js ''<'' @ joinStr (tagName n) @ fst (fst (renderNs lc n a dns dnfp incl h))
        @ renderAttrs n (snd (fst (renderNs lc n a dns dnfp incl h))) @ js ''>''
        @ fst (processChildren lc (childNodes n) a (snd (fst (renderNs lc n a dns dnfp incl h)))
                 dnfp incl (snd (renderNs lc n a dns dnfp incl h)))
        @ js ''</'' @ joinStr (tagName n) @ js ''>'',
      snd (processChildren lc (childNodes n) a (snd (fst (renderNs lc n a dns dnfp incl h)))
             dnfp incl (snd (renderNs lc n a dns dnfp incl h))))"
  using assms by (cases n) (simp add: case_prod_beta Let_def)

lemma processInner_text:
  assumes "truthy (nodeData n)"
  shows "processInner lc n a dns dnfp incl h
           = (encodeSpecialCharactersInText (joinStr (nodeData n)), h)"
  using assms by (cases n) simp

lemma process_element:
  assumes "\<not> truthy (nodeData n)"
  shows "\<exists>ns d rest. process lc n opts =
           js ''<'' @ joinStr (tagName n) @ ns @ renderAttrs n d @ js ''>'' @ rest"
proof -
  have "\<exists>ns d rest. fst (processInner lc n a dns dnfp incl h) =
           js ''<'' @ joinStr (tagName n) @ ns @ renderAttrs n d @ js ''>'' @ rest"
    for a dns dnfp incl h
    unfolding processInner_element [OF assms] fst_conv by blast
  then show ?thesis
    unfolding process_def Let_def by blast
qed




subsection \<open>The output depends on the contents of the array only\<close>





section \<open>Properties of the canonicalizer\<close>

text \<open>
  C3. For every node, the attributes that \<open>renderAttrs\<close> emits are exactly the attributes
  whose name does not begin with \<open>xmlns\<close>, each once, in the specification's order: sorted
  by namespace URI concatenated with local name, with every attribute without a namespace URI
  before every attribute with one. The output of \<open>process\<close> for an element carries them in
  that order after the tag name and the namespace declarations. In particular
  \<open><e xmlns="u" b="2" a="1" xml:lang="en"/>\<close> canonicalizes to
  \<open><e xmlns="u" a="1" b="2" xml:lang="en"></e>\<close>, whether the parser gives \<open>null\<close> or
  \<open>undefined\<close> for the namespace URI of \<open>a\<close> and \<open>b\<close>.
\<close>

theorem C3_attribute_order:
  \<open>mset (attrListToRender n) =
     mset (filter (\<lambda>a. \<not> startsWith (attrName a) (js ''xmlns''))
             (case attributes n of None \<Rightarrow> [] | Some as \<Rightarrow> as))
   \<and> sorted_wrt attrBefore (attrListToRender n)
   \<and> (\<forall>i j. i < j \<and> j < length (attrListToRender n) \<and> hasNamespace (attrListToRender n ! i)
          \<longrightarrow> hasNamespace (attrListToRender n ! j))
   \<and> renderAttrs n d = concat (map renderAttr (attrListToRender n))
   \<and> (\<not> truthy (nodeData n) \<longrightarrow>
        (\<exists>ns rest. process lc n opts =
           js ''<'' @ joinStr (tagName n) @ ns @ concat (map renderAttr (attrListToRender n))
             @ js ''>'' @ rest))
   \<and> process lc (exampleElement Null) None = js ''<e xmlns="u" a="1" b="2" xml:lang="en"></e>''
   \<and> process lc (exampleElement Undefined) None = js ''<e xmlns="u" a="1" b="2" xml:lang="en"></e>''\<close>
proof -
  have s: "sorted_wrt attrBefore (attrListToRender n)"
    unfolding attrListToRender_def
    by (rule sorted_array_sort [OF attrCompare_le attrBefore_total attrBefore_trans])
  have o: "hasNamespace (attrListToRender n ! j)"
    if "i < j" "j < length (attrListToRender n)" "hasNamespace (attrListToRender n ! i)" for i j
  proof -
    have "attrBefore (attrListToRender n ! i) (attrListToRender n ! j)"
      using s that by (simp add: sorted_wrt_iff_nth_less)
    then show ?thesis
      using that(3) by (auto simp: attrBefore_def split: if_splits)
  qed
  have m: "mset (attrListToRender n) =
     mset (filter (\<lambda>a. \<not> startsWith (attrName a) (js ''xmlns''))
             (case attributes n of None \<Rightarrow> [] | Some as \<Rightarrow> as))"
    by (simp add: attrListToRender_def mset_array_sort split: option.splits)
  have p: "\<exists>ns rest. process lc n opts =
           js ''<'' @ joinStr (tagName n) @ ns @ concat (map renderAttr (attrListToRender n))
             @ js ''>'' @ rest" if "\<not> truthy (nodeData n)"
    using process_element [OF that, of lc opts] by (auto simp: renderAttrs_def)
  have o': "\<forall>i j. i < j \<and> j < length (attrListToRender n) \<and> hasNamespace (attrListToRender n ! i)
          \<longrightarrow> hasNamespace (attrListToRender n ! j)"
    using o by blast
  have p': "\<not> truthy (nodeData n) \<longrightarrow>
        (\<exists>ns rest. process lc n opts =
           js ''<'' @ joinStr (tagName n) @ ns @ concat (map renderAttr (attrListToRender n))
             @ js ''>'' @ rest)"
    using p by blast
  have r: "renderAttrs n d = concat (map renderAttr (attrListToRender n))"
    by (simp add: renderAttrs_def)
  show ?thesis
    using s o' m p' r example_output [of Null lc] example_output [of Undefined lc]
    by (intro conjI) simp_all
qed

text \<open>The example element: the order of its rendered attributes.\<close>

theorem C3_attribute_order_witness:
  \<open>map attrName (attrListToRender (exampleElement Null)) = [js ''a'', js ''b'', js ''xml:lang'']
   \<and> sorted_wrt attrBefore (attrListToRender (exampleElement Null))
   \<and> \<not> truthy (nodeData (exampleElement Null))
   \<and> process (localeCompare demoLib) (exampleElement Null) None
       = js ''<e xmlns="u" a="1" b="2" xml:lang="en"></e>''\<close>
proof -
  have t: "\<not> truthy (nodeData (exampleElement Null))"
    by (simp add: exampleElement_def)
  note c = C3_attribute_order [of "exampleElement Null" Null "localeCompare demoLib" None]
  from c have s: "sorted_wrt attrBefore (attrListToRender (exampleElement Null))"
    by blast
  from c have p: \<open>process (localeCompare demoLib) (exampleElement Null) None
       = js ''<e xmlns="u" a="1" b="2" xml:lang="en"></e>''\<close>
    by blast
  show ?thesis
    using t s p example_attrs [of Null] by simp
qed



section \<open>7-bit ASCII in, 7-bit ASCII out\<close>















end
